theory Spec2Isabelle
  imports Complex_Main "HOL-Library.Word"
begin

section \<open>Scalars and vectors\<close>

text \<open>
  The shooter computes with \<open>GLfloat\<close> and \<open>double\<close>. Both are modelled by the real
  numbers: every theorem below is about the arithmetic the program writes down, not about
  the rounding of a particular floating-point format. The vector operations of the GLM
  library that the simulation core relies on are written out componentwise.
\<close>

type_synonym GLfloat = real
type_synonym GLuint = "32 word"

datatype vec3 = Vec3 (vx: real) (vy: real) (vz: real)
datatype vec2 = Vec2 (ux: real) (uy: real)

definition vadd :: "vec3 \<Rightarrow> vec3 \<Rightarrow> vec3" where
  "vadd a b = Vec3 (vx a + vx b) (vy a + vy b) (vz a + vz b)"

definition vsub :: "vec3 \<Rightarrow> vec3 \<Rightarrow> vec3" where
  "vsub a b = Vec3 (vx a - vx b) (vy a - vy b) (vz a - vz b)"

definition vscale :: "vec3 \<Rightarrow> real \<Rightarrow> vec3" where
  "vscale a s = Vec3 (vx a * s) (vy a * s) (vz a * s)"

definition glm_dot :: "vec3 \<Rightarrow> vec3 \<Rightarrow> real" where
  "glm_dot a b = vx a * vx b + vy a * vy b + vz a * vz b"

definition glm_length :: "vec3 \<Rightarrow> real" where
  "glm_length v = sqrt (glm_dot v v)"

definition glm_cross :: "vec3 \<Rightarrow> vec3 \<Rightarrow> vec3" where
  "glm_cross a b =
     Vec3 (vy a * vz b - vy b * vz a) (vz a * vx b - vz b * vx a) (vx a * vy b - vx b * vy a)"

text \<open>
  \<open>glm::translate(glm::mat4(1.0f), p) * glm::vec4(v, w)\<close>, truncated to its first three
  components: the translation is added \<open>w\<close> times.
\<close>

definition translate_apply :: "vec3 \<Rightarrow> vec3 \<Rightarrow> real \<Rightarrow> vec3" where
  "translate_apply p v w = vadd v (vscale p w)"

text \<open>The constant \<open>PI\<close> of the file and the constant \<open>Camera::PI\<close>.\<close>

definition PI :: real where
  "PI = 3.1416"

definition Camera_PI :: real where
  "Camera_PI = 3.1416"

section \<open>Scene objects\<close>

text \<open>
  \<open>Model\<close> owns a texture handle and the mesh; \<open>SceneObject\<close> adds position, direction,
  speed and collider radius. The two subclasses differ in the virtual \<open>IsSnowBall\<close>,
  which is a field of the record here.
\<close>

record Model =
  texture :: GLuint
  vertices :: "vec3 list"
  uvs :: "vec2 list"

record SceneObject = Model +
  position :: vec3
  direction :: vec3
  speed :: GLfloat
  collider_radius :: GLfloat
  IsSnowBall :: bool

definition IsIntersected :: "SceneObject \<Rightarrow> SceneObject \<Rightarrow> bool" where
  "IsIntersected this other \<longleftrightarrow>
     glm_length (vsub (position this) (position other))
       < collider_radius this + collider_radius other"

definition Shift :: "vec3 \<Rightarrow> SceneObject \<Rightarrow> SceneObject" where
  "Shift step this = this\<lparr>position := vadd (position this) step\<rparr>"

text \<open>
  The distance between two centres as the specification words it, the Euclidean one.
\<close>

definition euclidean_distance :: "vec3 \<Rightarrow> vec3 \<Rightarrow> real" where
  "euclidean_distance c1 c2 =
     sqrt ((vx c1 - vx c2)\<^sup>2 + (vy c1 - vy c2)\<^sup>2 + (vz c1 - vz c2)\<^sup>2)"

section \<open>The collision pass\<close>

text \<open>
  The inner loop over \<open>j\<close> from a given start, for a fixed first operand \<open>i\<close>.
\<close>

function collide_inner :: "SceneObject list \<Rightarrow> nat \<Rightarrow> nat \<Rightarrow> bool list \<Rightarrow> bool list" where
  "collide_inner objs i j remains =
     (if j < length objs then
        collide_inner objs i (Suc j)
          (if IsIntersected (objs ! i) (objs ! j) then
             (if IsSnowBall (objs ! i) \<noteq> IsSnowBall (objs ! j)
              then remains[i := False, j := False] else remains)
           else remains)
      else remains)"
  by pat_completeness auto
termination
  by (relation "measure (\<lambda>(objs, i, j, remains). length objs - j)") auto

declare collide_inner.simps [simp del]

text \<open>The outer loop over \<open>i\<close>, with its \<open>continue\<close> for a marked object that is no snowball.\<close>

function collide_outer :: "SceneObject list \<Rightarrow> nat \<Rightarrow> bool list \<Rightarrow> bool list" where
  "collide_outer objs i remains =
     (if i < length objs then
        (if remains ! i = False \<and> IsSnowBall (objs ! i) = False
         then collide_outer objs (Suc i) remains
         else collide_outer objs (Suc i) (collide_inner objs i (Suc i) remains))
      else remains)"
  by pat_completeness auto
termination
  by (relation "measure (\<lambda>(objs, i, remains). length objs - i)") auto

declare collide_outer.simps [simp del]

definition collision_marks :: "SceneObject list \<Rightarrow> bool list" where
  "collision_marks objs = collide_outer objs 0 (replicate (length objs) True)"

text \<open>
  The same two loops with a log of the pairs on which \<open>IsIntersected\<close> is called, in
  the order of the calls. The log is an observation only; the marks do not depend on it.
\<close>

function collide_inner_log ::
  "SceneObject list \<Rightarrow> nat \<Rightarrow> nat \<Rightarrow> bool list \<times> (nat \<times> nat) list
     \<Rightarrow> bool list \<times> (nat \<times> nat) list" where
  "collide_inner_log objs i j (remains, checked) =
     (if j < length objs then
        collide_inner_log objs i (Suc j)
          ((if IsIntersected (objs ! i) (objs ! j) then
              (if IsSnowBall (objs ! i) \<noteq> IsSnowBall (objs ! j)
               then remains[i := False, j := False] else remains)
            else remains),
           checked @ [(i, j)])
      else (remains, checked))"
  by pat_completeness auto
termination
  by (relation "measure (\<lambda>(objs, i, j, s). length objs - j)") auto

declare collide_inner_log.simps [simp del]

function collide_outer_log ::
  "SceneObject list \<Rightarrow> nat \<Rightarrow> bool list \<times> (nat \<times> nat) list
     \<Rightarrow> bool list \<times> (nat \<times> nat) list" where
  "collide_outer_log objs i (remains, checked) =
     (if i < length objs then
        (if remains ! i = False \<and> IsSnowBall (objs ! i) = False
         then collide_outer_log objs (Suc i) (remains, checked)
         else collide_outer_log objs (Suc i)
                (collide_inner_log objs i (Suc i) (remains, checked)))
      else (remains, checked))"
  by pat_completeness auto
termination
  by (relation "measure (\<lambda>(objs, i, s). length objs - i)") auto

declare collide_outer_log.simps [simp del]

definition collision_log :: "SceneObject list \<Rightarrow> bool list \<times> (nat \<times> nat) list" where
  "collision_log objs = collide_outer_log objs 0 (replicate (length objs) True, [])"

text \<open>
  The loop that splits the collection: a kept object goes to \<open>alive_objects\<close>, the
  others are deleted (their texture is released by the destructor of \<open>Model\<close>).
\<close>

function prune ::
  "SceneObject list \<Rightarrow> bool list \<Rightarrow> nat \<Rightarrow> SceneObject list \<times> SceneObject list
     \<Rightarrow> SceneObject list \<times> SceneObject list" where
  "prune objs remains i (alive_objects, deleted) =
     (if i < length objs then
        (if remains ! i
         then prune objs remains (Suc i) (alive_objects @ [objs ! i], deleted)
         else prune objs remains (Suc i) (alive_objects, deleted @ [objs ! i]))
      else (alive_objects, deleted))"
  by pat_completeness auto
termination
  by (relation "measure (\<lambda>(objs, remains, i, s). length objs - i)") auto

declare prune.simps [simp del]

text \<open>Lines 517 to 543: the marks, then the split. The result is the new collection
  and the deleted objects.\<close>

definition collision_pass :: "SceneObject list \<Rightarrow> SceneObject list \<times> SceneObject list" where
  "collision_pass objs = prune objs (collision_marks objs) 0 ([], [])"

text \<open>
  The test of the innermost \<open>if\<close> of the pass, for the objects at two indices, and two
  notions used to describe the marks: an index is \<^emph>\<open>active\<close> when the outer loop
  runs its inner loop (it is a snowball, or nothing before it collides with it), and it
  is \<^emph>\<open>marked\<close> by the first \<open>i\<close> rounds when an active index below \<open>i\<close> collides
  with it, as first operand or as itself.
\<close>

definition collides :: "SceneObject list \<Rightarrow> nat \<Rightarrow> nat \<Rightarrow> bool" where
  "collides objs i j \<longleftrightarrow>
     IsIntersected (objs ! i) (objs ! j) \<and> IsSnowBall (objs ! i) \<noteq> IsSnowBall (objs ! j)"

definition active :: "SceneObject list \<Rightarrow> nat \<Rightarrow> bool" where
  "active objs a \<longleftrightarrow> IsSnowBall (objs ! a) \<or> \<not> (\<exists>b<a. collides objs b a)"

definition marked_upto :: "SceneObject list \<Rightarrow> nat \<Rightarrow> nat \<Rightarrow> bool" where
  "marked_upto objs i k \<longleftrightarrow>
     (\<exists>a<i. active objs a \<and>
        ((a < k \<and> collides objs a k) \<or>
         (a = k \<and> (\<exists>j. k < j \<and> j < length objs \<and> collides objs k j))))"

section \<open>The sphere generator\<close>

text \<open>
  The counts and the indices of \<open>createSphere\<close> are of type \<open>int\<close>, 32 bits wide. A
  signed operation whose result is not in the range of \<open>int\<close> has undefined behaviour:
  the loops below test every result they compute with \<open>in_int\<close> and are \<open>None\<close> when
  one is out of range.
\<close>

definition INT_MAX :: int where
  "INT_MAX = 2147483647"

definition INT_MIN :: int where
  "INT_MIN = - 2147483648"

definition in_int :: "int \<Rightarrow> bool" where
  "in_int v \<longleftrightarrow> INT_MIN \<le> v \<and> v \<le> INT_MAX"

text \<open>
  A read \<open>v[k]\<close> of a \<open>std::vector\<close> with an \<open>int\<close> index: outside the vector the
  behaviour of the program is undefined, which is the value \<open>None\<close>.
\<close>

definition vec_at :: "'a list \<Rightarrow> int \<Rightarrow> 'a option" where
  "vec_at xs k = (if 0 \<le> k \<and> k < int (length xs) then Some (xs ! nat k) else None)"

type_synonym mesh = "vec3 list \<times> vec3 list \<times> vec2 list"

text \<open>
  The loop over the sectors of one stack: one vertex, normal and UV per step, then
  \<open>++j\<close>.
\<close>

function sphere_sector_loop ::
  "real \<Rightarrow> vec3 \<Rightarrow> int \<Rightarrow> int \<Rightarrow> int \<Rightarrow> real \<Rightarrow> real \<Rightarrow> int \<Rightarrow> mesh \<Rightarrow> mesh option" where
  "sphere_sector_loop radius pos sectorCount stackCount i xy z j (vs, ns, us) =
     (if j \<le> sectorCount then
        (let lengthInv = 1 / radius;
             sectorStep = 2 * PI / of_int sectorCount;
             sectorAngle = of_int j * sectorStep;
             x = xy * cos sectorAngle;
             y = xy * sin sectorAngle;
             vertex = translate_apply pos (Vec3 x y z) 1;
             nx = x * lengthInv;
             ny = y * lengthInv;
             nz = z * lengthInv;
             normal = translate_apply pos (Vec3 nx ny nz) 0;
             s = of_int j / of_int sectorCount;
             t = of_int i / of_int stackCount
         in if in_int (j + 1)
            then sphere_sector_loop radius pos sectorCount stackCount i xy z (j + 1)
                   (vs @ [vertex], ns @ [normal], us @ [Vec2 s t])
            else None)
      else Some (vs, ns, us))"
  by pat_completeness auto
termination
  by (relation "measure (\<lambda>(radius, pos, sectorCount, stackCount, i, xy, z, j, m).
        nat (sectorCount + 1 - j))") auto

declare sphere_sector_loop.simps [simp del]

function sphere_stack_loop ::
  "real \<Rightarrow> vec3 \<Rightarrow> int \<Rightarrow> int \<Rightarrow> int \<Rightarrow> mesh \<Rightarrow> mesh option" where
  "sphere_stack_loop radius pos sectorCount stackCount i m =
     (if i \<le> stackCount then
        (let stackStep = PI / of_int stackCount;
             stackAngle = PI / 2 - of_int i * stackStep;
             xy = radius * cos stackAngle;
             z = radius * sin stackAngle
         in case sphere_sector_loop radius pos sectorCount stackCount i xy z 0 m of
              None \<Rightarrow> None
            | Some m' \<Rightarrow>
                if in_int (i + 1)
                then sphere_stack_loop radius pos sectorCount stackCount (i + 1) m'
                else None)
      else Some m)"
  by pat_completeness auto
termination
  by (relation "measure (\<lambda>(radius, pos, sectorCount, stackCount, i, m).
        nat (stackCount + 1 - i))") auto

declare sphere_stack_loop.simps [simp del]

text \<open>
  Three \<open>push_back\<close>s to each of the three output vectors, reading the grid at the
  indices \<open>a\<close>, \<open>b\<close>, \<open>c\<close>.
\<close>

definition push_triangle :: "mesh \<Rightarrow> int \<Rightarrow> int \<Rightarrow> int \<Rightarrow> mesh \<Rightarrow> mesh option" where
  "push_triangle grid a b c out =
     (case grid of (vs, ns, us) \<Rightarrow>
      case out of (out_vertices, out_normals, out_uvs) \<Rightarrow>
      (case (vec_at vs a, vec_at vs b, vec_at vs c) of
         (Some va, Some vb, Some vc) \<Rightarrow>
           (case (vec_at ns a, vec_at ns b, vec_at ns c) of
              (Some na, Some nb, Some nc) \<Rightarrow>
                (case (vec_at us a, vec_at us b, vec_at us c) of
                   (Some ua, Some ub, Some uc) \<Rightarrow>
                     Some (out_vertices @ [va, vb, vc], out_normals @ [na, nb, nc],
                           out_uvs @ [ua, ub, uc])
                 | _ \<Rightarrow> None)
            | _ \<Rightarrow> None)
       | _ \<Rightarrow> None))"

text \<open>
  The loop over the sectors of stack \<open>i\<close> (lines 80 to 111): the triangle
  \<open>k1, k2, k1 + 1\<close> unless \<open>i = 0\<close>, the triangle \<open>k1 + 1, k2, k2 + 1\<close> unless
  \<open>i = stackCount - 1\<close>, then \<open>++j, ++k1, ++k2\<close>.
\<close>

function sphere_triangle_loop ::
  "int \<Rightarrow> int \<Rightarrow> mesh \<Rightarrow> int \<Rightarrow> int \<Rightarrow> int \<Rightarrow> int \<Rightarrow> mesh \<Rightarrow> mesh option" where
  "sphere_triangle_loop sectorCount stackCount grid i j k1 k2 out =
     (if j < sectorCount then
        (case (if i \<noteq> 0
               then (if in_int (k1 + 1) then push_triangle grid k1 k2 (k1 + 1) out else None)
               else Some out) of
           None \<Rightarrow> None
         | Some out1 \<Rightarrow>
             (if in_int (stackCount - 1) then
                (case (if i \<noteq> stackCount - 1
                       then (if in_int (k1 + 1) \<and> in_int (k2 + 1)
                             then push_triangle grid (k1 + 1) k2 (k2 + 1) out1 else None)
                       else Some out1) of
                   None \<Rightarrow> None
                 | Some out2 \<Rightarrow>
                     (if in_int (j + 1) \<and> in_int (k1 + 1) \<and> in_int (k2 + 1)
                      then sphere_triangle_loop sectorCount stackCount grid i (j + 1)
                             (k1 + 1) (k2 + 1) out2
                      else None))
              else None))
      else Some out)"
  by pat_completeness auto
termination
  by (relation "measure (\<lambda>(sectorCount, stackCount, grid, i, j, k1, k2, out).
        nat (sectorCount - j))") auto

declare sphere_triangle_loop.simps [simp del]

text \<open>
  The loop over the stacks (lines 76 to 112), with \<open>k1 = i * (sectorCount + 1)\<close> and
  \<open>k2 = k1 + sectorCount + 1\<close> computed in \<open>int\<close>.
\<close>

function sphere_quad_loop :: "int \<Rightarrow> int \<Rightarrow> mesh \<Rightarrow> int \<Rightarrow> mesh \<Rightarrow> mesh option" where
  "sphere_quad_loop sectorCount stackCount grid i out =
     (if i < stackCount then
        (if in_int (sectorCount + 1) \<and> in_int (i * (sectorCount + 1))
            \<and> in_int (i * (sectorCount + 1) + sectorCount)
            \<and> in_int (i * (sectorCount + 1) + sectorCount + 1)
         then
           (let k1 = i * (sectorCount + 1);
                k2 = k1 + sectorCount + 1
            in case sphere_triangle_loop sectorCount stackCount grid i 0 k1 k2 out of
                 None \<Rightarrow> None
               | Some out' \<Rightarrow>
                   if in_int (i + 1)
                   then sphere_quad_loop sectorCount stackCount grid (i + 1) out'
                   else None)
         else None)
      else Some out)"
  by pat_completeness auto
termination
  by (relation "measure (\<lambda>(sectorCount, stackCount, grid, i, out). nat (stackCount - i))") auto

declare sphere_quad_loop.simps [simp del]

text \<open>
  \<open>createSphere\<close> appends to the three vectors it is given; the result is their new
  content.
\<close>

definition createSphere ::
  "real \<Rightarrow> int \<Rightarrow> int \<Rightarrow> vec3 list \<Rightarrow> vec3 list \<Rightarrow> vec2 list \<Rightarrow> vec3 \<Rightarrow> mesh option" where
  "createSphere radius sectorCount stackCount out_vertices out_normals out_uvs pos =
     (case sphere_stack_loop radius pos sectorCount stackCount 0 ([], [], []) of
        None \<Rightarrow> None
      | Some grid \<Rightarrow>
          sphere_quad_loop sectorCount stackCount grid 0
            (out_vertices, out_normals, out_uvs))"

text \<open>
  The three vectors of a mesh have grown by \<open>n\<close> elements over the lengths \<open>off\<close>.
\<close>

definition mesh_size :: "nat \<times> nat \<times> nat \<Rightarrow> mesh \<Rightarrow> nat \<Rightarrow> bool" where
  "mesh_size off m n \<longleftrightarrow>
     (case off of (a, b, c) \<Rightarrow>
      case m of (vs, ns, us) \<Rightarrow>
        length vs = a + n \<and> length ns = b + n \<and> length us = c + n)"

section \<open>Camera\<close>

record Camera =
  horizontal_angle :: GLfloat
  vertical_angle :: GLfloat
  fov :: GLfloat

definition CameraDirection :: "'a Camera_scheme \<Rightarrow> vec3" where
  "CameraDirection this =
     Vec3 (cos (vertical_angle this) * sin (horizontal_angle this))
          (sin (vertical_angle this))
          (cos (vertical_angle this) * cos (horizontal_angle this))"

definition CameraRight :: "'a Camera_scheme \<Rightarrow> vec3" where
  "CameraRight this =
     Vec3 (sin (horizontal_angle this - Camera_PI / 2))
          0
          (cos (horizontal_angle this - Camera_PI / 2))"

definition CameraUp :: "'a Camera_scheme \<Rightarrow> vec3" where
  "CameraUp this = glm_cross (CameraRight this) (CameraDirection this)"

definition FOV :: "'a Camera_scheme \<Rightarrow> GLfloat" where
  "FOV this = fov this"

section \<open>Constructors\<close>

text \<open>
  The texture loader, the mesh loader and the vertex transform
  \<open>glm::rotate(glm::scale(glm::mat4(1.0f), glm::vec3(s)), angle, axis) * glm::vec4(v, 1.0f)\<close>
  are not part of the file; the constructors take them as parameters.
\<close>

record Collaborators =
  loadBMP_custom :: "string \<Rightarrow> GLuint"
  loadOBJ :: "string \<Rightarrow> vec3 list \<times> vec2 list \<times> vec3 list"
  scale_rotate :: "real \<Rightarrow> real \<Rightarrow> vec3 \<Rightarrow> vec3 \<Rightarrow> vec3"

definition CubeEnemy :: "Collaborators \<Rightarrow> vec3 \<Rightarrow> vec3 \<Rightarrow> real \<Rightarrow> real \<Rightarrow> SceneObject" where
  "CubeEnemy ext pos rotation angle scale_coef =
     (case loadOBJ ext ''cube.obj'' of (vs, us, temp_normals) \<Rightarrow>
        \<lparr>texture = loadBMP_custom ext ''enemy_texture.bmp'',
         vertices = map (scale_rotate ext scale_coef angle rotation) vs,
         uvs = us,
         position = pos,
         direction = Vec3 0 0 0,
         speed = 0,
         collider_radius = 2 * scale_coef,
         IsSnowBall = False\<rparr>)"

definition SnowBall ::
  "Collaborators \<Rightarrow> vec3 \<Rightarrow> vec3 \<Rightarrow> GLfloat \<Rightarrow> int \<Rightarrow> int \<Rightarrow> GLfloat \<Rightarrow> SceneObject option" where
  "SnowBall ext pos dir exclusion_radius sectorCount stackCount spd =
     (case createSphere exclusion_radius sectorCount stackCount [] [] [] pos of
        None \<Rightarrow> None
      | Some (vs, temp_normals, us) \<Rightarrow>
          Some \<lparr>texture = loadBMP_custom ext ''ice_texture.bmp'',
                vertices = vs,
                uvs = us,
                position = pos,
                direction = dir,
                speed = spd,
                collider_radius = exclusion_radius,
                IsSnowBall = True\<rparr>)"

section \<open>The player\<close>

record Player = Camera +
  player_position :: vec3
  player_collider_radius :: GLfloat
  mouse_speed :: GLfloat
  player_timedelay :: GLfloat
  player_next_creation_time :: GLfloat

text \<open>
  What one call of \<open>CreateSnowBall\<close> reads from the window: the cursor, the left
  button, and the clock, once in the test and once more in the assignment.
\<close>

record PlayerInput =
  xpos :: real
  ypos :: real
  left_pressed :: bool
  time_at_test :: real
  time_at_set :: real

text \<open>
  \<open>new_Player\<close> is the constructor with its default arguments, called when the clock
  reads \<open>now\<close>. Lines 339 to 344 turn the camera by the offset of the cursor from the
  window centre. The result of \<open>CreateSnowBall\<close> is \<open>None\<close> when the construction of
  the snowball has undefined behaviour; otherwise it is the returned pointer (\<open>None\<close>
  for \<open>nullptr\<close>) and the player afterwards.
\<close>

definition new_Player :: "real \<Rightarrow> Player" where
  "new_Player now =
     \<lparr>horizontal_angle = 0, vertical_angle = 0, fov = 45,
      player_position = Vec3 0 0 0, player_collider_radius = 1, mouse_speed = 0.005,
      player_timedelay = 0.2, player_next_creation_time = now\<rparr>"

definition mouse_look :: "PlayerInput \<Rightarrow> Player \<Rightarrow> Player" where
  "mouse_look inp this =
     (let this1 = this\<lparr>horizontal_angle :=
                    horizontal_angle this + mouse_speed this * (of_int (1024 div 2) - xpos inp)\<rparr>
      in this1\<lparr>vertical_angle :=
                 vertical_angle this1 + mouse_speed this1 * (of_int (768 div 2) - ypos inp)\<rparr>)"

definition CreateSnowBall ::
  "Collaborators \<Rightarrow> PlayerInput \<Rightarrow> Player \<Rightarrow> (SceneObject option \<times> Player) option" where
  "CreateSnowBall ext inp this =
     (let this2 = mouse_look inp this;
          camera_direction = CameraDirection this2
      in if left_pressed inp \<and> time_at_test inp > player_next_creation_time this2 then
           (case SnowBall ext (vadd (player_position this2) (vscale camera_direction 1.5))
                   camera_direction 0.75 15 15 13 of
              None \<Rightarrow> None
            | Some snowball \<Rightarrow>
                Some (Some snowball,
                      this2\<lparr>player_next_creation_time :=
                               time_at_set inp + player_timedelay this2\<rparr>))
         else Some (None, this2))"

section \<open>The enemy spawner\<close>

text \<open>
  The random engine is a stream of canonical samples; a
  \<open>std::uniform_real_distribution\<close> with parameters \<open>(a, b)\<close> consumes one sample \<open>u\<close>
  and yields \<open>a + (b - a) * u\<close>.
\<close>

type_synonym rng_state = "nat \<Rightarrow> real"

definition uniform_real :: "real \<times> real \<Rightarrow> rng_state \<Rightarrow> real \<times> rng_state" where
  "uniform_real d g = (fst d + (snd d - fst d) * g 0, \<lambda>n. g (Suc n))"

record EnemyCreator =
  creator_timedelay :: GLfloat
  creator_next_creation_time :: GLfloat
  rng :: rng_state
  angle_dist :: "real \<times> real"
  radius_dist :: "real \<times> real"
  size_dist :: "real \<times> real"

definition new_EnemyCreator ::
  "real \<Rightarrow> rng_state \<Rightarrow> GLfloat \<Rightarrow> GLfloat \<Rightarrow> GLfloat \<Rightarrow> GLfloat \<Rightarrow> GLfloat \<Rightarrow> EnemyCreator" where
  "new_EnemyCreator now seed timedelay min_radius max_radius min_size max_size =
     \<lparr>creator_timedelay = timedelay,
      creator_next_creation_time = now,
      rng = seed,
      angle_dist = (0, 2 * PI),
      radius_dist = (min_radius, max_radius),
      size_dist = (min_size, max_size)\<rparr>"

definition CreateEnemy ::
  "Collaborators \<Rightarrow> vec3 \<Rightarrow> real \<Rightarrow> real \<Rightarrow> EnemyCreator \<Rightarrow> SceneObject option \<times> EnemyCreator" where
  "CreateEnemy ext pos time_test time_set this =
     (if time_test \<le> creator_next_creation_time this then (None, this)
      else
        (let this1 = this\<lparr>creator_next_creation_time := time_set + creator_timedelay this\<rparr>;
             (angle_rotation, g1) = uniform_real (angle_dist this1) (rng this1);
             (phi, g2) = uniform_real (angle_dist this1) g1;
             (theta, g3) = uniform_real (angle_dist this1) g2;
             rotation_axis = Vec3 (cos phi * sin theta) (sin phi) (cos phi * cos theta);
             (angle_position, g4) = uniform_real (angle_dist this1) g3;
             dir = Vec3 (sin angle_position) 0 (cos angle_position);
             (radius, g5) = uniform_real (radius_dist this1) g4;
             new_position = vadd pos (vscale dir radius);
             (size, g6) = uniform_real (size_dist this1) g5
         in (Some (CubeEnemy ext new_position rotation_axis angle_rotation size),
             this1\<lparr>rng := g6\<rparr>)))"

section \<open>One iteration of the main loop\<close>

record World =
  objects :: "SceneObject list"
  player :: Player
  prev_time :: GLfloat
  enemy_creator :: EnemyCreator

text \<open>
  What one iteration reads from the window: the clock at its start, and the readings of
  the two spawners.
\<close>

record TickInput =
  current_time :: real
  player_input :: PlayerInput
  enemy_time_at_test :: real
  enemy_time_at_set :: real

text \<open>The loop of lines 511 to 513: every object moves along its direction.\<close>

definition move_objects :: "GLfloat \<Rightarrow> SceneObject list \<Rightarrow> SceneObject list" where
  "move_objects timediff objs =
     map (\<lambda>obj. Shift (vscale (vscale (direction obj) (speed obj)) timediff) obj) objs"

text \<open>
  Lines 508 to 553, up to the rendering, which does not change the state: the motion of
  every object, the collision pass, the two spawners. The second component is the list
  of deleted objects, in the order of their deletion.
\<close>

definition tick ::
  "Collaborators \<Rightarrow> TickInput \<Rightarrow> World \<Rightarrow> (World \<times> SceneObject list) option" where
  "tick ext inp w =
     (let timediff = current_time inp - prev_time w;
          moved = move_objects timediff (objects w);
          (alive_objects, deleted) = collision_pass moved
      in case CreateSnowBall ext (player_input inp) (player w) of
           None \<Rightarrow> None
         | Some (new_snowball, player1) \<Rightarrow>
             (let objects1 = (case new_snowball of
                                None \<Rightarrow> alive_objects
                              | Some s \<Rightarrow> alive_objects @ [s]);
                  (new_enemy, creator1) =
                     CreateEnemy ext (player_position player1)
                       (enemy_time_at_test inp) (enemy_time_at_set inp) (enemy_creator w);
                  objects2 = (case new_enemy of
                                None \<Rightarrow> objects1
                              | Some e \<Rightarrow> objects1 @ [e])
              in Some (\<lparr>objects = objects2, player = player1,
                        prev_time = current_time inp, enemy_creator = creator1\<rparr>,
                       deleted)))"

section \<open>Objects for the examples\<close>

text \<open>
  A snowball and an enemy with a given centre and collider radius and no mesh, and
  collaborators that load nothing and leave every vertex where it is.
\<close>

definition snowball_at :: "vec3 \<Rightarrow> real \<Rightarrow> SceneObject" where
  "snowball_at p r =
     \<lparr>texture = 0, vertices = [], uvs = [], position = p, direction = Vec3 0 0 0,
      speed = 0, collider_radius = r, IsSnowBall = True\<rparr>"

definition enemy_at :: "vec3 \<Rightarrow> real \<Rightarrow> SceneObject" where
  "enemy_at p r =
     \<lparr>texture = 0, vertices = [], uvs = [], position = p, direction = Vec3 0 0 0,
      speed = 0, collider_radius = r, IsSnowBall = False\<rparr>"

definition no_assets :: Collaborators where
  "no_assets =
     \<lparr>loadBMP_custom = (\<lambda>file. 0), loadOBJ = (\<lambda>file. ([], [], [])),
      scale_rotate = (\<lambda>s angle axis v. v)\<rparr>"

section \<open>Intersection and translation\<close>

lemma glm_length_vsub:
  "glm_length (vsub a b) = euclidean_distance a b"
  by (simp add: glm_length_def glm_dot_def vsub_def euclidean_distance_def power2_eq_square)

text \<open>
  C2. \<open>IsIntersected\<close> holds exactly when the Euclidean distance of the two centres is
  strictly less than the sum of the two collider radii; two spheres that touch do not
  intersect.
\<close>

theorem IsIntersected_iff_distance:
  "(IsIntersected a b \<longleftrightarrow>
      euclidean_distance (position a) (position b) < collider_radius a + collider_radius b)
   \<and> (euclidean_distance (position a) (position b) = collider_radius a + collider_radius b
        \<longrightarrow> \<not> IsIntersected a b)"
  by (simp add: IsIntersected_def glm_length_vsub)

text \<open>
  Two spheres of radius 1 with centres at distance 2 touch and do not intersect; at
  distance 1.5 they intersect.
\<close>

theorem IsIntersected_iff_distance_witness:
  "\<not> IsIntersected (enemy_at (Vec3 0 0 0) 1) (snowball_at (Vec3 2 0 0) 1)
   \<and> IsIntersected (enemy_at (Vec3 0 0 0) 1) (snowball_at (Vec3 (3/2) 0 0) 1)"
proof -
  have d2: "euclidean_distance (Vec3 0 0 0) (Vec3 2 0 0) = 2"
    by (simp add: euclidean_distance_def)
  have d1: "euclidean_distance (Vec3 0 0 0) (Vec3 (3/2) 0 0) = 3/2"
    by (simp add: euclidean_distance_def real_sqrt_divide)
  have "\<not> IsIntersected (enemy_at (Vec3 0 0 0) 1) (snowball_at (Vec3 2 0 0) 1)"
    using IsIntersected_iff_distance[of "enemy_at (Vec3 0 0 0) 1" "snowball_at (Vec3 2 0 0) 1"]
    by (simp add: enemy_at_def snowball_at_def d2)
  moreover have "IsIntersected (enemy_at (Vec3 0 0 0) 1) (snowball_at (Vec3 (3/2) 0 0) 1)"
    using IsIntersected_iff_distance[of "enemy_at (Vec3 0 0 0) 1"
        "snowball_at (Vec3 (3/2) 0 0) 1"]
    by (simp add: enemy_at_def snowball_at_def d1)
  ultimately show ?thesis by simp
qed

section \<open>The marks of the collision pass\<close>

lemma length_collide_inner [simp]:
  "length (collide_inner objs i j remains) = length remains"
  by (induction objs i j remains rule: collide_inner.induct)
     (subst collide_inner.simps, simp)

lemma collide_inner_nth:
  "length remains = length objs \<Longrightarrow> k < length objs \<Longrightarrow>
   collide_inner objs i j0 remains ! k \<longleftrightarrow>
     remains ! k
     \<and> \<not> (k = i \<and> (\<exists>j. j0 \<le> j \<and> j < length objs \<and> collides objs i j))
     \<and> \<not> (j0 \<le> k \<and> collides objs i k)"
proof (induction objs i j0 remains rule: collide_inner.induct)
  case (1 objs i j remains)
  show ?case
  proof (cases "j < length objs")
    case False
    then show ?thesis using "1.prems"
      by (subst collide_inner.simps) auto
  next
    case True
    let ?r = "(if IsIntersected (objs ! i) (objs ! j) then
             (if IsSnowBall (objs ! i) \<noteq> IsSnowBall (objs ! j)
              then remains[i := False, j := False] else remains)
           else remains)"
    have len: "length ?r = length objs" using "1.prems" by simp
    have step: "collide_inner objs i j remains = collide_inner objs i (Suc j) ?r"
      using True by (subst collide_inner.simps) simp
    have IH: "collide_inner objs i (Suc j) ?r ! k \<longleftrightarrow>
     ?r ! k
     \<and> \<not> (k = i \<and> (\<exists>j'. Suc j \<le> j' \<and> j' < length objs \<and> collides objs i j'))
     \<and> \<not> (Suc j \<le> k \<and> collides objs i k)"
      using "1.IH"[OF True len "1.prems"(2)] .
    have r: "?r ! k \<longleftrightarrow> remains ! k \<and> \<not> (collides objs i j \<and> (k = i \<or> k = j))"
      using "1.prems" True by (cases "k = i"; cases "k = j") (auto simp: collides_def)
    have ex: "(\<exists>j'. j \<le> j' \<and> j' < length objs \<and> collides objs i j') \<longleftrightarrow>
          collides objs i j \<or> (\<exists>j'. Suc j \<le> j' \<and> j' < length objs \<and> collides objs i j')"
      using True by (metis Suc_leI le_neq_implies_less order_refl Suc_leD)
    have self: "\<not> collides objs i i" by (simp add: collides_def)
    show ?thesis unfolding step IH r ex using self
      by (metis Suc_leI le_neq_implies_less order_refl Suc_leD)
  qed
qed


lemma collide_inner_log_eq:
  "collide_inner_log objs i j (remains, checked) =
     (collide_inner objs i j remains, checked @ map (Pair i) [j..<length objs])"
proof (induction "length objs - j" arbitrary: j remains checked)
  case 0
  then show ?case
    by (subst collide_inner_log.simps, subst collide_inner.simps) simp
next
  case (Suc d)
  then have lt: "j < length objs" and d: "d = length objs - Suc j" by simp_all
  show ?case
    by (subst collide_inner_log.simps, subst collide_inner.simps)
       (simp add: lt Suc.hyps(1)[OF d] upt_conv_Cons)
qed

lemma marked_upto_Suc:
  "marked_upto objs (Suc i) k \<longleftrightarrow>
     marked_upto objs i k \<or>
     (active objs i \<and>
        ((i < k \<and> collides objs i k) \<or>
         (i = k \<and> (\<exists>j. k < j \<and> j < length objs \<and> collides objs k j))))"
  unfolding marked_upto_def less_Suc_eq by blast

lemma marked_on_arrival:
  "marked_upto objs i i \<longleftrightarrow> (\<exists>a<i. active objs a \<and> collides objs a i)"
  unfolding marked_upto_def by auto

lemma skip_iff_not_active:
  "(marked_upto objs i i \<and> \<not> IsSnowBall (objs ! i)) \<longleftrightarrow> \<not> active objs i"
  unfolding marked_on_arrival
  by (auto simp: active_def collides_def)

lemma collide_outer_log_inv:
  assumes "length r = length objs" and "i \<le> length objs"
    and "\<forall>k<length objs. r ! k \<longleftrightarrow> \<not> marked_upto objs i k"
    and "set c = {(a, j). a < i \<and> a < j \<and> j < length objs \<and> active objs a}"
  shows "length (fst (collide_outer_log objs i (r, c))) = length objs
     \<and> (\<forall>k<length objs. fst (collide_outer_log objs i (r, c)) ! k
            \<longleftrightarrow> \<not> marked_upto objs (length objs) k)
     \<and> set (snd (collide_outer_log objs i (r, c)))
         = {(a, j). a < j \<and> j < length objs \<and> active objs a}"
  using assms
proof (induction "length objs - i" arbitrary: i r c)
  case 0
  then have i: "i = length objs" by simp
  have "collide_outer_log objs i (r, c) = (r, c)"
    by (subst collide_outer_log.simps) (simp add: i)
  then show ?case using "0.prems" i by auto
next
  case (Suc d)
  then have lt: "i < length objs" and d: "d = length objs - Suc i" and le: "Suc i \<le> length objs"
    by simp_all
  have arrival: "r ! i \<longleftrightarrow> \<not> marked_upto objs i i"
    using Suc.prems(3) lt by blast
  show ?case
  proof (cases "active objs i")
    case False
    then have skip: "r ! i = False \<and> IsSnowBall (objs ! i) = False"
      using skip_iff_not_active[of objs i] arrival by simp
    have step: "collide_outer_log objs i (r, c) = collide_outer_log objs (Suc i) (r, c)"
      using lt skip by (subst collide_outer_log.simps) simp
    have m: "\<forall>k<length objs. r ! k \<longleftrightarrow> \<not> marked_upto objs (Suc i) k"
      using Suc.prems(3) False by (simp add: marked_upto_Suc)
    have s: "set c = {(a, j). a < Suc i \<and> a < j \<and> j < length objs \<and> active objs a}"
      using Suc.prems(4) False by (auto simp: less_Suc_eq)
    show ?thesis unfolding step
      by (rule Suc.hyps(1)[OF d Suc.prems(1) le m s])
  next
    case True
    then have noskip: "\<not> (r ! i = False \<and> IsSnowBall (objs ! i) = False)"
      using skip_iff_not_active[of objs i] arrival by auto
    let ?r = "collide_inner objs i (Suc i) r"
    let ?c = "c @ map (Pair i) [Suc i..<length objs]"
    have step: "collide_outer_log objs i (r, c) = collide_outer_log objs (Suc i) (?r, ?c)"
      using lt noskip by (subst collide_outer_log.simps) (auto simp add: collide_inner_log_eq)
    have len: "length ?r = length objs" using Suc.prems(1) by simp
    have m: "\<forall>k<length objs. ?r ! k \<longleftrightarrow> \<not> marked_upto objs (Suc i) k"
    proof (intro allI impI)
      fix k assume k: "k < length objs"
      have "?r ! k \<longleftrightarrow> r ! k
          \<and> \<not> (k = i \<and> (\<exists>j. Suc i \<le> j \<and> j < length objs \<and> collides objs i j))
          \<and> \<not> (Suc i \<le> k \<and> collides objs i k)"
        by (rule collide_inner_nth[OF Suc.prems(1) k])
      moreover have "r ! k \<longleftrightarrow> \<not> marked_upto objs i k" using Suc.prems(3) k by blast
      ultimately show "?r ! k \<longleftrightarrow> \<not> marked_upto objs (Suc i) k"
        using True by (auto simp: marked_upto_Suc Suc_le_eq)
    qed
    have s: "set ?c = {(a, j). a < Suc i \<and> a < j \<and> j < length objs \<and> active objs a}"
      using Suc.prems(4) True by (auto simp: less_Suc_eq)
    show ?thesis unfolding step
      by (rule Suc.hyps(1)[OF d len le m s])
  qed
qed

lemma fst_collide_outer_log:
  "fst (collide_outer_log objs i (r, c)) = collide_outer objs i r"
proof (induction "length objs - i" arbitrary: i r c)
  case 0
  then show ?case
    by (subst collide_outer_log.simps, subst collide_outer.simps) simp
next
  case (Suc d)
  then have lt: "i < length objs" and d: "d = length objs - Suc i" by simp_all
  show ?case
    by (subst collide_outer_log.simps, subst collide_outer.simps)
       (simp add: lt Suc.hyps(1)[OF d] collide_inner_log_eq)
qed

lemma fst_collision_log: "fst (collision_log objs) = collision_marks objs"
  by (simp add: collision_log_def collision_marks_def fst_collide_outer_log)

lemma collision_log_inv:
  "length (fst (collision_log objs)) = length objs
     \<and> (\<forall>k<length objs. fst (collision_log objs) ! k
            \<longleftrightarrow> \<not> marked_upto objs (length objs) k)
     \<and> set (snd (collision_log objs))
         = {(a, j). a < j \<and> j < length objs \<and> active objs a}"
  unfolding collision_log_def
  by (rule collide_outer_log_inv) (simp_all add: marked_upto_def)

lemma prune_eq:
  "prune objs r i (al, del) =
     (al @ map ((!) objs) (filter (\<lambda>k. r ! k) [i..<length objs]),
      del @ map ((!) objs) (filter (\<lambda>k. \<not> r ! k) [i..<length objs]))"
proof (induction "length objs - i" arbitrary: i al del)
  case 0
  then show ?case by (subst prune.simps) simp
next
  case (Suc d)
  then have lt: "i < length objs" and d: "d = length objs - Suc i" by simp_all
  show ?case
    by (subst prune.simps) (simp add: lt Suc.hyps(1)[OF d] upt_conv_Cons)
qed

lemma collision_marks_nth:
  "k < length objs \<Longrightarrow> collision_marks objs ! k \<longleftrightarrow> \<not> marked_upto objs (length objs) k"
  using collision_log_inv[of objs] by (simp add: fst_collision_log)

lemma length_collision_marks [simp]: "length (collision_marks objs) = length objs"
  using collision_log_inv[of objs] by (simp add: fst_collision_log)

lemma collision_checked:
  "(a, j) \<in> set (snd (collision_log objs)) \<longleftrightarrow> a < j \<and> j < length objs \<and> active objs a"
  using collision_log_inv[of objs] by simp

lemma IsIntersected_commute: "IsIntersected a b = IsIntersected b a"
  by (simp add: IsIntersected_def glm_length_vsub euclidean_distance_def power2_commute add.commute)

lemma first_operand_marked:
  assumes "i < j" "j < length objs" "collides objs i j"
  shows "marked_upto objs (length objs) i"
proof (cases "active objs i")
  case True
  have "i < length objs" using assms by simp
  then show ?thesis using True assms unfolding marked_upto_def by blast
next
  case False
  then obtain b where b: "b < i" "collides objs b i" and e: "\<not> IsSnowBall (objs ! i)"
    by (auto simp: active_def)
  then have "active objs b" by (auto simp: active_def collides_def)
  moreover have "b < length objs" using b assms by simp
  ultimately show ?thesis using b unfolding marked_upto_def by blast
qed

lemma second_operand_marked:
  assumes "i < j" "j < length objs" "collides objs i j" "active objs i"
  shows "marked_upto objs (length objs) j"
proof -
  have "i < length objs" using assms by simp
  then show ?thesis using assms unfolding marked_upto_def by blast
qed

lemma marked_has_partner:
  assumes "marked_upto objs (length objs) k" "k < length objs"
  shows "\<exists>m<length objs. m \<noteq> k \<and> IsSnowBall (objs ! m) \<noteq> IsSnowBall (objs ! k)
            \<and> IsIntersected (objs ! k) (objs ! m)"
  using assms unfolding marked_upto_def collides_def
  by (metis IsIntersected_commute nat_neq_iff)

lemma marked_iff:
  assumes "k < length objs"
  shows "marked_upto objs (length objs) k \<longleftrightarrow>
     (\<exists>a<k. collides objs a k
         \<and> (IsSnowBall (objs ! a) \<or> \<not> (\<exists>b<a. collides objs b a)))
     \<or> ((IsSnowBall (objs ! k) \<or> \<not> (\<exists>b<k. collides objs b k))
         \<and> (\<exists>j. k < j \<and> j < length objs \<and> collides objs k j))"
proof
  assume "marked_upto objs (length objs) k"
  then show "(\<exists>a<k. collides objs a k
         \<and> (IsSnowBall (objs ! a) \<or> \<not> (\<exists>b<a. collides objs b a)))
     \<or> ((IsSnowBall (objs ! k) \<or> \<not> (\<exists>b<k. collides objs b k))
         \<and> (\<exists>j. k < j \<and> j < length objs \<and> collides objs k j))"
    unfolding marked_upto_def active_def by blast
next
  assume h: "(\<exists>a<k. collides objs a k
         \<and> (IsSnowBall (objs ! a) \<or> \<not> (\<exists>b<a. collides objs b a)))
     \<or> ((IsSnowBall (objs ! k) \<or> \<not> (\<exists>b<k. collides objs b k))
         \<and> (\<exists>j. k < j \<and> j < length objs \<and> collides objs k j))"
  then show "marked_upto objs (length objs) k"
  proof
    assume "\<exists>a<k. collides objs a k
         \<and> (IsSnowBall (objs ! a) \<or> \<not> (\<exists>b<a. collides objs b a))"
    then obtain a where a: "a < k" "collides objs a k" "active objs a"
      by (auto simp: active_def)
    then have "a < length objs" using assms by simp
    then show ?thesis using a unfolding marked_upto_def by blast
  next
    assume "(IsSnowBall (objs ! k) \<or> \<not> (\<exists>b<k. collides objs b k))
         \<and> (\<exists>j. k < j \<and> j < length objs \<and> collides objs k j)"
    then have "active objs k" "\<exists>j. k < j \<and> j < length objs \<and> collides objs k j"
      by (auto simp: active_def)
    then show ?thesis using assms unfolding marked_upto_def by blast
  qed
qed

text \<open>
  C1, as amended. Two objects \<open>collide\<close> when they intersect and exactly one of them is
  a snowball. For a pair \<open>i < j\<close> that collides, the object at \<open>i\<close> is marked for removal,
  and the object at \<open>j\<close> is marked as well when the object at \<open>i\<close> is a snowball or
  nothing before \<open>i\<close> collides with it. An object is marked only if it intersects an
  object of the other kind. Exactly: the object at \<open>k\<close> is marked if and only if an
  earlier object collides with it that is a snowball or has no collision before itself,
  or \<open>k\<close> is a snowball or has no collision before itself and collides with a later
  object. So a snowball that collides with no later object, and before itself only with
  enemies that an earlier object collides with, is kept: those enemies are marked when
  their turn comes and are skipped as first operand. The pass keeps exactly the unmarked
  objects, in their order, and deletes the marked ones.
\<close>

theorem collision_pass_policy:
  "(\<forall>i j. i < j \<and> j < length objs \<and> IsIntersected (objs ! i) (objs ! j)
          \<and> IsSnowBall (objs ! i) \<noteq> IsSnowBall (objs ! j) \<longrightarrow>
        \<not> collision_marks objs ! i
        \<and> (IsSnowBall (objs ! i)
             \<or> (\<forall>a<i. \<not> (IsIntersected (objs ! a) (objs ! i)
                           \<and> IsSnowBall (objs ! a) \<noteq> IsSnowBall (objs ! i))) \<longrightarrow>
           \<not> collision_marks objs ! j))
   \<and> (\<forall>k<length objs. \<not> collision_marks objs ! k \<longrightarrow>
        (\<exists>m<length objs. m \<noteq> k \<and> IsSnowBall (objs ! m) \<noteq> IsSnowBall (objs ! k)
            \<and> IsIntersected (objs ! k) (objs ! m)))
   \<and> (\<forall>k<length objs.
        \<not> collision_marks objs ! k \<longleftrightarrow>
          (\<exists>a<k. collides objs a k
              \<and> (IsSnowBall (objs ! a) \<or> \<not> (\<exists>b<a. collides objs b a)))
          \<or> ((IsSnowBall (objs ! k) \<or> \<not> (\<exists>b<k. collides objs b k))
              \<and> (\<exists>j. k < j \<and> j < length objs \<and> collides objs k j)))
   \<and> (\<forall>k<length objs.
        IsSnowBall (objs ! k)
        \<and> (\<forall>j. k < j \<and> j < length objs \<longrightarrow> \<not> collides objs k j)
        \<and> (\<forall>a<k. collides objs a k \<longrightarrow> (\<exists>b<a. collides objs b a)) \<longrightarrow>
        collision_marks objs ! k)
   \<and> collision_pass objs =
        (map ((!) objs) (filter (\<lambda>k. collision_marks objs ! k) [0..<length objs]),
         map ((!) objs) (filter (\<lambda>k. \<not> collision_marks objs ! k) [0..<length objs]))"
proof (intro conjI allI impI)
  fix i j
  assume h: "i < j \<and> j < length objs \<and> IsIntersected (objs ! i) (objs ! j)
          \<and> IsSnowBall (objs ! i) \<noteq> IsSnowBall (objs ! j)"
  then have c: "collides objs i j" and ij: "i < j" "j < length objs"
    by (simp_all add: collides_def)
  then have i: "i < length objs" by simp
  show "\<not> collision_marks objs ! i"
    using first_operand_marked[OF ij c] by (simp add: collision_marks_nth[OF i])
  assume "IsSnowBall (objs ! i)
             \<or> (\<forall>a<i. \<not> (IsIntersected (objs ! a) (objs ! i)
                           \<and> IsSnowBall (objs ! a) \<noteq> IsSnowBall (objs ! i)))"
  then have "active objs i" by (auto simp: active_def collides_def)
  then show "\<not> collision_marks objs ! j"
    using second_operand_marked[OF ij c] by (simp add: collision_marks_nth[OF ij(2)])
next
  fix k
  assume "k < length objs" "\<not> collision_marks objs ! k"
  then show "\<exists>m<length objs. m \<noteq> k \<and> IsSnowBall (objs ! m) \<noteq> IsSnowBall (objs ! k)
            \<and> IsIntersected (objs ! k) (objs ! m)"
    using marked_has_partner[of objs k] by (simp add: collision_marks_nth)
next
  fix k
  assume k: "k < length objs"
  show "\<not> collision_marks objs ! k \<longleftrightarrow>
          (\<exists>a<k. collides objs a k
              \<and> (IsSnowBall (objs ! a) \<or> \<not> (\<exists>b<a. collides objs b a)))
          \<or> ((IsSnowBall (objs ! k) \<or> \<not> (\<exists>b<k. collides objs b k))
              \<and> (\<exists>j. k < j \<and> j < length objs \<and> collides objs k j))"
    unfolding collision_marks_nth[OF k] not_not by (rule marked_iff[OF k])
next
  fix k
  assume k: "k < length objs"
  assume h: "IsSnowBall (objs ! k)
        \<and> (\<forall>j. k < j \<and> j < length objs \<longrightarrow> \<not> collides objs k j)
        \<and> (\<forall>a<k. collides objs a k \<longrightarrow> (\<exists>b<a. collides objs b a))"
  have "\<not> marked_upto objs (length objs) k"
  proof
    assume "marked_upto objs (length objs) k"
    then have "(\<exists>a<k. collides objs a k
         \<and> (IsSnowBall (objs ! a) \<or> \<not> (\<exists>b<a. collides objs b a)))
     \<or> ((IsSnowBall (objs ! k) \<or> \<not> (\<exists>b<k. collides objs b k))
         \<and> (\<exists>j. k < j \<and> j < length objs \<and> collides objs k j))"
      by (simp only: marked_iff[OF k])
    then consider a where "a < k" "collides objs a k"
        "IsSnowBall (objs ! a) \<or> \<not> (\<exists>b<a. collides objs b a)"
      | j where "k < j" "j < length objs" "collides objs k j"
      by blast
    then show False
    proof cases
      case 1
      then have "\<not> IsSnowBall (objs ! a)" using h by (auto simp: collides_def)
      then show False using 1 h by blast
    next
      case 2
      then show False using h by blast
    qed
  qed
  then show "collision_marks objs ! k" by (simp add: collision_marks_nth[OF k])
next
  show "collision_pass objs =
        (map ((!) objs) (filter (\<lambda>k. collision_marks objs ! k) [0..<length objs]),
         map ((!) objs) (filter (\<lambda>k. \<not> collision_marks objs ! k) [0..<length objs]))"
    by (simp add: collision_pass_def prune_eq)
qed

text \<open>
  The test without the square root, for the evaluation of concrete scenes.
\<close>

lemma IsIntersected_squared:
  "IsIntersected a b \<longleftrightarrow>
     0 < collider_radius a + collider_radius b
     \<and> glm_dot (vsub (position a) (position b)) (vsub (position a) (position b))
         < (collider_radius a + collider_radius b)\<^sup>2"
proof -
  let ?d = "glm_dot (vsub (position a) (position b)) (vsub (position a) (position b))"
  let ?r = "collider_radius a + collider_radius b"
  have nn: "0 \<le> ?d" by (simp add: glm_dot_def)
  show ?thesis
  proof (cases "0 < ?r")
    case True
    then have "sqrt ?d < ?r \<longleftrightarrow> ?d < ?r\<^sup>2"
      by (metis real_sqrt_less_iff real_sqrt_abs abs_of_pos)
    then show ?thesis using True by (simp add: IsIntersected_def glm_length_def)
  next
    case False
    then have "\<not> sqrt ?d < ?r" using nn by (smt (verit) real_sqrt_ge_zero)
    then show ?thesis using False by (simp add: IsIntersected_def glm_length_def)
  qed
qed

lemmas scene_eval =
  collide_outer.simps collide_inner.simps collide_outer_log.simps collide_inner_log.simps
  prune.simps collision_marks_def collision_log_def collision_pass_def
  IsIntersected_squared snowball_at_def enemy_at_def vsub_def glm_dot_def power2_eq_square

text \<open>
  The scene of the specification: an enemy of radius 2 at the origin and a snowball of
  radius 1 at distance 1.5. Both are marked and both are deleted. And the scene
  snowball, enemy, snowball on a line: the last snowball collides only with the enemy,
  which the first snowball collides with, and is kept.
\<close>

theorem collision_pass_policy_witness:
  "\<not> collision_marks [enemy_at (Vec3 0 0 0) 2, snowball_at (Vec3 (3/2) 0 0) 1] ! 0
   \<and> \<not> collision_marks [enemy_at (Vec3 0 0 0) 2, snowball_at (Vec3 (3/2) 0 0) 1] ! 1
   \<and> collision_pass [enemy_at (Vec3 0 0 0) 2, snowball_at (Vec3 (3/2) 0 0) 1]
       = ([], [enemy_at (Vec3 0 0 0) 2, snowball_at (Vec3 (3/2) 0 0) 1])
   \<and> collision_marks
        [snowball_at (Vec3 0 0 0) 1, enemy_at (Vec3 (3/2) 0 0) 1, snowball_at (Vec3 3 0 0) 1]
        ! 2"
proof -
  let ?objs = "[enemy_at (Vec3 0 0 0) 2, snowball_at (Vec3 (3/2) 0 0) 1]"
  let ?B = "[snowball_at (Vec3 0 0 0) 1, enemy_at (Vec3 (3/2) 0 0) 1,
             snowball_at (Vec3 3 0 0) 1]"
  have h: "(0::nat) < 1 \<and> 1 < length ?objs \<and> IsIntersected (?objs ! 0) (?objs ! 1)
          \<and> IsSnowBall (?objs ! 0) \<noteq> IsSnowBall (?objs ! 1)"
    by (simp add: IsIntersected_squared snowball_at_def enemy_at_def vsub_def glm_dot_def
          power2_eq_square)
  note t = collision_pass_policy[of ?objs]
  have m: "\<not> collision_marks ?objs ! 0 \<and> \<not> collision_marks ?objs ! 1"
    using t[THEN conjunct1, rule_format, OF h] h by blast
  have "[0..<length ?objs] = [0, 1]" by (simp add: upt_conv_Cons)
  then have p: "collision_pass ?objs = ([], ?objs)"
    using t[THEN conjunct2, THEN conjunct2, THEN conjunct2, THEN conjunct2] m by simp
  have c01: "collides ?B 0 1" and c02: "\<not> collides ?B 0 2" and c12: "collides ?B 1 2"
    by (simp_all add: collides_def IsIntersected_squared snowball_at_def enemy_at_def
          vsub_def glm_dot_def power2_eq_square)
  have later: "\<forall>j. 2 < j \<and> j < length ?B \<longrightarrow> \<not> collides ?B 2 j"
  proof (intro allI impI)
    fix j :: nat
    assume a: "2 < j \<and> j < length ?B"
    have "length ?B = 3" by simp
    with a have False by arith
    then show "\<not> collides ?B 2 j" ..
  qed
  have earlier: "\<forall>a<2. collides ?B a 2 \<longrightarrow> (\<exists>b<a. collides ?B b a)"
  proof (intro allI impI)
    fix a :: nat
    assume "a < 2" and c: "collides ?B a 2"
    then have "a = 0 \<or> a = 1" by auto
    then have "a = 1" using c c02 by auto
    then show "\<exists>b<a. collides ?B b a" using c01 by auto
  qed
  have s: "IsSnowBall (?B ! 2)" by (simp add: snowball_at_def)
  have l: "2 < length ?B" by simp
  note u = collision_pass_policy[of ?B]
  have r: "collision_marks ?B ! 2"
    by (rule u[THEN conjunct2, THEN conjunct2, THEN conjunct2, THEN conjunct1,
          rule_format, OF l]) (intro conjI s later earlier)
  show ?thesis using m p r by simp
qed

text \<open>
  C1 as stated fails: in the scene snowball, enemy, snowball on a line, the enemy and the
  last snowball intersect and exactly one of them is a snowball, yet the last snowball is
  kept. The first snowball has marked the enemy, which is then skipped as first operand.
\<close>

theorem collision_pass_counterexample:
  "IsIntersected (enemy_at (Vec3 (3/2) 0 0) 1) (snowball_at (Vec3 3 0 0) 1)
   \<and> IsSnowBall (enemy_at (Vec3 (3/2) 0 0) 1) \<noteq> IsSnowBall (snowball_at (Vec3 3 0 0) 1)
   \<and> collision_pass
        [snowball_at (Vec3 0 0 0) 1, enemy_at (Vec3 (3/2) 0 0) 1, snowball_at (Vec3 3 0 0) 1]
      = ([snowball_at (Vec3 3 0 0) 1],
         [snowball_at (Vec3 0 0 0) 1, enemy_at (Vec3 (3/2) 0 0) 1])"
  by (simp add: scene_eval)

lemma active_iff_checked:
  "active objs i \<longleftrightarrow>
     IsSnowBall (objs ! i) \<or> \<not> (\<exists>a<i. active objs a \<and> collides objs a i)"
  using skip_iff_not_active[of objs i] marked_on_arrival[of objs i] by blast

text \<open>
  C6, as amended. An object that is marked when the outer loop reaches it (an earlier
  checked pair with it as second operand collided) is checked as first operand of the
  pairs \<open>(i, j)\<close> exactly when it is a snowball; an object that is not marked at that
  moment is checked against every later object. Every checked pair that collides marks
  both operands, whether or not they are marked already. The marks of the logged loops
  are the marks of the pass.
\<close>

theorem checked_as_first_operand:
  assumes "i < j" and "j < length objs"
  shows "((i, j) \<in> set (snd (collision_log objs)) \<longleftrightarrow>
            IsSnowBall (objs ! i)
            \<or> \<not> (\<exists>a<i. (a, i) \<in> set (snd (collision_log objs))
                       \<and> IsIntersected (objs ! a) (objs ! i)
                       \<and> IsSnowBall (objs ! a) \<noteq> IsSnowBall (objs ! i)))
       \<and> ((i, j) \<in> set (snd (collision_log objs)) \<and> IsIntersected (objs ! i) (objs ! j)
            \<and> IsSnowBall (objs ! i) \<noteq> IsSnowBall (objs ! j) \<longrightarrow>
          \<not> fst (collision_log objs) ! i \<and> \<not> fst (collision_log objs) ! j)
       \<and> fst (collision_log objs) = collision_marks objs"
proof (intro conjI impI)
  have i: "i < length objs" using assms by simp
  have "(\<exists>a<i. (a, i) \<in> set (snd (collision_log objs))
                       \<and> IsIntersected (objs ! a) (objs ! i)
                       \<and> IsSnowBall (objs ! a) \<noteq> IsSnowBall (objs ! i))
        \<longleftrightarrow> (\<exists>a<i. active objs a \<and> collides objs a i)"
    using i by (auto simp: collision_checked collides_def)
  then show "(i, j) \<in> set (snd (collision_log objs)) \<longleftrightarrow>
            IsSnowBall (objs ! i)
            \<or> \<not> (\<exists>a<i. (a, i) \<in> set (snd (collision_log objs))
                       \<and> IsIntersected (objs ! a) (objs ! i)
                       \<and> IsSnowBall (objs ! a) \<noteq> IsSnowBall (objs ! i))"
    using assms active_iff_checked[of objs i] by (simp add: collision_checked)
next
  assume h: "(i, j) \<in> set (snd (collision_log objs)) \<and> IsIntersected (objs ! i) (objs ! j)
            \<and> IsSnowBall (objs ! i) \<noteq> IsSnowBall (objs ! j)"
  then have a: "active objs i" and c: "collides objs i j"
    by (simp_all add: collision_checked collides_def)
  have i: "i < length objs" using assms by simp
  show "\<not> fst (collision_log objs) ! i"
    using first_operand_marked[OF assms c] collision_marks_nth[OF i]
    by (simp add: fst_collision_log)
  show "\<not> fst (collision_log objs) ! j"
    using second_operand_marked[OF assms c a] collision_marks_nth[OF assms(2)]
    by (simp add: fst_collision_log)
next
  show "fst (collision_log objs) = collision_marks objs" by (rule fst_collision_log)
qed

text \<open>
  Enemy, snowball, enemy on a line: the snowball is marked by the first enemy and still
  marks the second. Snowball, enemy, snowball: the enemy is marked by the first snowball
  and is not checked against the second.
\<close>

theorem checked_as_first_operand_witness:
  "(1, 2) \<in> set (snd (collision_log
       [enemy_at (Vec3 0 0 0) 1, snowball_at (Vec3 1 0 0) 1, enemy_at (Vec3 2 0 0) 1]))
   \<and> \<not> fst (collision_log
       [enemy_at (Vec3 0 0 0) 1, snowball_at (Vec3 1 0 0) 1, enemy_at (Vec3 2 0 0) 1]) ! 2
   \<and> (1, 2) \<notin> set (snd (collision_log
       [snowball_at (Vec3 0 0 0) 1, enemy_at (Vec3 1 0 0) 1, snowball_at (Vec3 2 0 0) 1]))"
proof -
  let ?A = "[enemy_at (Vec3 0 0 0) 1, snowball_at (Vec3 1 0 0) 1, enemy_at (Vec3 2 0 0) 1]"
  let ?B = "[snowball_at (Vec3 0 0 0) 1, enemy_at (Vec3 1 0 0) 1, snowball_at (Vec3 2 0 0) 1]"
  have l: "(1::nat) < 2" "2 < length ?A" "2 < length ?B" by simp_all
  have sA: "IsSnowBall (?A ! 1)" by (simp add: snowball_at_def)
  have cA: "IsIntersected (?A ! 1) (?A ! 2) \<and> IsSnowBall (?A ! 1) \<noteq> IsSnowBall (?A ! 2)"
    by (simp add: IsIntersected_squared snowball_at_def enemy_at_def vsub_def glm_dot_def
          power2_eq_square)
  have inA: "(1, 2) \<in> set (snd (collision_log ?A))"
    using checked_as_first_operand[OF l(1) l(2)] sA by blast
  then have mA: "\<not> fst (collision_log ?A) ! 2"
    using checked_as_first_operand[OF l(1) l(2)] cA by blast
  have in0: "(0, 1) \<in> set (snd (collision_log ?B))"
    using checked_as_first_operand[of 0 1 ?B] by (simp add: snowball_at_def)
  have cB: "IsIntersected (?B ! 0) (?B ! 1) \<and> IsSnowBall (?B ! 0) \<noteq> IsSnowBall (?B ! 1)"
    by (simp add: IsIntersected_squared snowball_at_def enemy_at_def vsub_def glm_dot_def
          power2_eq_square)
  have nB: "\<not> IsSnowBall (?B ! 1)" by (simp add: enemy_at_def)
  have "(1, 2) \<notin> set (snd (collision_log ?B))"
    using checked_as_first_operand[OF l(1) l(3)] in0 cB nB by blast
  then show ?thesis using inA mA by blast
qed

text \<open>
  C6 as stated fails: an enemy that intersects two later snowballs is marked by the pair
  \<open>(0, 1)\<close> and is still checked as first operand of the pair \<open>(0, 2)\<close>, which marks
  the second snowball too. The skip is tested once, before the inner loop.
\<close>

theorem checked_as_first_operand_counterexample:
  "collision_log
        [enemy_at (Vec3 0 0 0) 1, snowball_at (Vec3 1 0 0) 1, snowball_at (Vec3 0 1 0) 1]
      = ([False, False, False], [(0, 1), (0, 2), (1, 2)])
   \<and> IsIntersected (enemy_at (Vec3 0 0 0) 1) (snowball_at (Vec3 1 0 0) 1)
   \<and> IsSnowBall (snowball_at (Vec3 1 0 0) 1)
   \<and> \<not> IsSnowBall (enemy_at (Vec3 0 0 0) 1)"
  by (simp add: scene_eval)

text \<open>
  C9. The intersection test gives the same answer in both directions.
\<close>

theorem IsIntersected_symmetric: "IsIntersected a b = IsIntersected b a"
  by (rule IsIntersected_commute)

lemma move_objects_vertices: "map vertices (move_objects timediff objs) = map vertices objs"
  by (simp add: move_objects_def Shift_def)

text \<open>
  C10. \<open>Shift\<close> adds the step to the position and changes no other field; the motion
  step of the main loop leaves every mesh as it is.
\<close>

theorem Shift_changes_position_only:
  "position (Shift step obj) = vadd (position obj) step
   \<and> direction (Shift step obj) = direction obj
   \<and> speed (Shift step obj) = speed obj
   \<and> collider_radius (Shift step obj) = collider_radius obj
   \<and> vertices (Shift step obj) = vertices obj
   \<and> uvs (Shift step obj) = uvs obj
   \<and> texture (Shift step obj) = texture obj
   \<and> IsSnowBall (Shift step obj) = IsSnowBall obj
   \<and> Shift step obj = obj\<lparr>position := vadd (position obj) step\<rparr>
   \<and> map vertices (move_objects timediff objs) = map vertices objs"
  by (simp add: Shift_def move_objects_vertices)

section \<open>The size of the generated sphere\<close>

lemma in_intI: "0 \<le> v \<Longrightarrow> v \<le> INT_MAX \<Longrightarrow> in_int v"
  by (simp add: in_int_def INT_MIN_def)

lemma sphere_sector_loop_size:
  "mesh_size off m n \<Longrightarrow> j \<le> sectorCount + 1 \<Longrightarrow> 0 \<le> j \<Longrightarrow> sectorCount + 1 \<le> INT_MAX \<Longrightarrow>
   \<exists>m'. sphere_sector_loop radius pos sectorCount stackCount i xy z j m = Some m'
     \<and> mesh_size off m' (n + nat (sectorCount + 1 - j))"
proof (induction "nat (sectorCount + 1 - j)" arbitrary: j m n)
  case 0
  then have "\<not> j \<le> sectorCount" by simp
  then show ?case using 0
    by (cases m rule: prod_cases3) (simp add: sphere_sector_loop.simps)
next
  case (Suc d)
  then have le: "j \<le> sectorCount" and d: "d = nat (sectorCount + 1 - (j + 1))" by simp_all
  obtain vs ns us where m: "m = (vs, ns, us)" by (cases m rule: prod_cases3)
  have sz: "\<And>a b c. mesh_size off (vs @ [a], ns @ [b], us @ [c]) (Suc n)"
    using Suc.prems(1) by (cases off rule: prod_cases3) (simp add: mesh_size_def m)
  have e: "n + nat (sectorCount + 1 - j) = Suc n + nat (sectorCount + 1 - (j + 1))"
    using le by simp
  have ii: "in_int (j + 1)" using le Suc.prems(3,4) by (intro in_intI) simp_all
  have "\<exists>a b c. sphere_sector_loop radius pos sectorCount stackCount i xy z j (vs, ns, us) =
      sphere_sector_loop radius pos sectorCount stackCount i xy z (j + 1)
        (vs @ [a], ns @ [b], us @ [c])"
    by (subst sphere_sector_loop.simps, simp only: le ii if_True Let_def, blast)
  then obtain a b c where
    step: "sphere_sector_loop radius pos sectorCount stackCount i xy z j (vs, ns, us) =
      sphere_sector_loop radius pos sectorCount stackCount i xy z (j + 1)
        (vs @ [a], ns @ [b], us @ [c])"
    by blast
  have j1: "j + 1 \<le> sectorCount + 1" and j0: "0 \<le> j + 1" using le Suc.prems(3) by simp_all
  show ?case
    unfolding m step e by (rule Suc.hyps(1)[OF d sz j1 j0 Suc.prems(4)])
qed

lemma sphere_stack_loop_size:
  "mesh_size off m n \<Longrightarrow> i \<le> stackCount + 1 \<Longrightarrow> 0 \<le> i \<Longrightarrow> 0 \<le> sectorCount \<Longrightarrow>
   sectorCount + 1 \<le> INT_MAX \<Longrightarrow> stackCount + 1 \<le> INT_MAX \<Longrightarrow>
   \<exists>m'. sphere_stack_loop radius pos sectorCount stackCount i m = Some m'
     \<and> mesh_size off m' (n + nat (stackCount + 1 - i) * nat (sectorCount + 1))"
proof (induction "nat (stackCount + 1 - i)" arbitrary: i m n)
  case 0
  then have "\<not> i \<le> stackCount" by simp
  then show ?case using 0 by (simp add: sphere_stack_loop.simps)
next
  case (Suc d)
  then have le: "i \<le> stackCount" and d: "d = nat (stackCount + 1 - (i + 1))" by simp_all
  have i1: "i + 1 \<le> stackCount + 1" and i0: "0 \<le> i + 1" using le Suc.prems(3) by simp_all
  have ii: "in_int (i + 1)" using le Suc.prems(3,6) by (intro in_intI) simp_all
  have e: "n + nat (stackCount + 1 - i) * nat (sectorCount + 1)
      = (n + nat (sectorCount + 1)) + nat (stackCount + 1 - (i + 1)) * nat (sectorCount + 1)"
  proof -
    have "nat (stackCount + 1 - i) = Suc (nat (stackCount + 1 - (i + 1)))"
      using le by simp
    then show ?thesis by simp
  qed
  have "\<exists>xy z. sphere_stack_loop radius pos sectorCount stackCount i m =
      (case sphere_sector_loop radius pos sectorCount stackCount i xy z 0 m of
         None \<Rightarrow> None
       | Some m' \<Rightarrow> sphere_stack_loop radius pos sectorCount stackCount (i + 1) m')"
    by (subst sphere_stack_loop.simps, simp only: le ii if_True Let_def, blast)
  then obtain xy z where
    step: "sphere_stack_loop radius pos sectorCount stackCount i m =
      (case sphere_sector_loop radius pos sectorCount stackCount i xy z 0 m of
         None \<Rightarrow> None
       | Some m' \<Rightarrow> sphere_stack_loop radius pos sectorCount stackCount (i + 1) m')"
    by blast
  obtain m1 where
    s1: "sphere_sector_loop radius pos sectorCount stackCount i xy z 0 m = Some m1"
    and z1: "mesh_size off m1 (n + nat (sectorCount + 1))"
    using sphere_sector_loop_size[OF Suc.prems(1), of 0 sectorCount radius pos stackCount i xy z]
      Suc.prems(4,5) by auto
  show ?case
    unfolding step s1 option.case e
    by (rule Suc.hyps(1)[OF d z1 i1 i0 Suc.prems(4,5,6)])
qed

lemma push_triangle_size:
  assumes "mesh_size (0, 0, 0) grid g" "mesh_size off out n"
    and "0 \<le> a" "a < int g" "0 \<le> b" "b < int g" "0 \<le> c" "c < int g"
  shows "\<exists>out'. push_triangle grid a b c out = Some out' \<and> mesh_size off out' (n + 3)"
proof -
  obtain vs ns us where g: "grid = (vs, ns, us)" by (cases grid rule: prod_cases3)
  obtain ov on ou where out: "out = (ov, on, ou)" by (cases out rule: prod_cases3)
  show ?thesis using assms
    by (cases off rule: prod_cases3)
       (simp add: g out push_triangle_def vec_at_def mesh_size_def)
qed

lemma grid_index_bounds:
  fixes i j sectorCount stackCount :: int
  assumes "0 \<le> i" "i < stackCount" "0 \<le> j" "j < sectorCount"
  shows "0 \<le> i * (sectorCount + 1) + j"
    and "i * (sectorCount + 1) + j + sectorCount + 1 + 1 < (stackCount + 1) * (sectorCount + 1)"
proof -
  have sc: "0 \<le> sectorCount + 1" using assms by simp
  show "0 \<le> i * (sectorCount + 1) + j" using assms sc by simp
  have "(i + 1) * (sectorCount + 1) \<le> stackCount * (sectorCount + 1)"
    using assms sc by (intro mult_right_mono) simp_all
  then show "i * (sectorCount + 1) + j + sectorCount + 1 + 1
      < (stackCount + 1) * (sectorCount + 1)"
    using assms by (simp add: algebra_simps)
qed

lemma sphere_triangle_loop_size:
  assumes "mesh_size (0, 0, 0) grid g" and "int g = (stackCount + 1) * (sectorCount + 1)"
    and "int g \<le> INT_MAX" and "stackCount \<le> INT_MAX"
    and "mesh_size off out n" and "0 \<le> i" and "i < stackCount" and "0 \<le> j"
    and "j \<le> sectorCount" and "k1 = i * (sectorCount + 1) + j"
    and "k2 = k1 + sectorCount + 1" and "sectorCount + 1 \<le> INT_MAX"
  shows "\<exists>out'. sphere_triangle_loop sectorCount stackCount grid i j k1 k2 out = Some out'
     \<and> mesh_size off out'
         (n + nat (sectorCount - j)
                * ((if i \<noteq> 0 then 3 else 0) + (if i \<noteq> stackCount - 1 then 3 else 0)))"
  using assms(5,8,9,10,11)
proof (induction "nat (sectorCount - j)" arbitrary: j k1 k2 out n)
  case 0
  then have "\<not> j < sectorCount" by simp
  then show ?case using 0 by (simp add: sphere_triangle_loop.simps)
next
  case (Suc d)
  then have lt: "j < sectorCount" and d: "d = nat (sectorCount - (j + 1))" by simp_all
  let ?c1 = "if i \<noteq> 0 then 3 else (0::nat)"
  let ?c2 = "if i \<noteq> stackCount - 1 then 3 else (0::nat)"
  have lo: "0 \<le> k1" and hi: "k2 + 1 < int g"
    using grid_index_bounds[OF assms(6,7) Suc.prems(2) lt] Suc.prems(4,5) assms(2)
    by simp_all
  have k12: "k1 < k2" using Suc.prems(5) lt Suc.prems(2) by simp
  have ii: "in_int (k1 + 1)" "in_int (k2 + 1)" "in_int (stackCount - 1)" "in_int (j + 1)"
    using lo hi k12 assms(3,4,6,7,12) Suc.prems(2) lt
    unfolding in_int_def INT_MIN_def by linarith+
  obtain out1 where o1:
    "(if i \<noteq> 0 then push_triangle grid k1 k2 (k1 + 1) out else Some out) = Some out1"
    and s1: "mesh_size off out1 (n + ?c1)"
  proof (cases "i \<noteq> 0")
    case True
    obtain t1 where "push_triangle grid k1 k2 (k1 + 1) out = Some t1"
      "mesh_size off t1 (n + 3)"
      using push_triangle_size[OF assms(1) Suc.prems(1), of k1 k2 "k1 + 1"] lo hi k12
      by auto
    then show ?thesis using that True by simp
  next
    case False
    then show ?thesis using that Suc.prems(1) by simp
  qed
  obtain out2 where o2:
    "(if i \<noteq> stackCount - 1 then push_triangle grid (k1 + 1) k2 (k2 + 1) out1
      else Some out1) = Some out2"
    and s2: "mesh_size off out2 (n + ?c1 + ?c2)"
  proof (cases "i \<noteq> stackCount - 1")
    case True
    obtain t2 where "push_triangle grid (k1 + 1) k2 (k2 + 1) out1 = Some t2"
      "mesh_size off t2 (n + ?c1 + 3)"
      using push_triangle_size[OF assms(1) s1, of "k1 + 1" k2 "k2 + 1"] lo hi k12
      by auto
    then show ?thesis using that True by simp
  next
    case False
    then show ?thesis using that s1 by simp
  qed
  have step: "sphere_triangle_loop sectorCount stackCount grid i j k1 k2 out =
      sphere_triangle_loop sectorCount stackCount grid i (j + 1) (k1 + 1) (k2 + 1) out2"
    by (subst sphere_triangle_loop.simps)
       (simp only: lt if_True o1 o2 option.case ii simp_thms)
  have j0: "0 \<le> j + 1" and j1: "j + 1 \<le> sectorCount" using Suc.prems(2) lt by simp_all
  have k1': "k1 + 1 = i * (sectorCount + 1) + (j + 1)" using Suc.prems(4) by simp
  have k2': "k2 + 1 = k1 + 1 + sectorCount + 1" using Suc.prems(5) by simp
  have e: "n + nat (sectorCount - j) * (?c1 + ?c2)
      = (n + ?c1 + ?c2) + nat (sectorCount - (j + 1)) * (?c1 + ?c2)"
  proof -
    have "nat (sectorCount - j) = Suc (nat (sectorCount - (j + 1)))" using lt by simp
    then show ?thesis by simp
  qed
  show ?case
    unfolding step e by (rule Suc.hyps(1)[OF d s2 j0 j1 k1' k2'])
qed

lemma sphere_quad_loop_size:
  assumes "mesh_size (0, 0, 0) grid g" and "int g = (stackCount + 1) * (sectorCount + 1)"
    and "int g \<le> INT_MAX" and "stackCount \<le> INT_MAX"
    and "mesh_size off out n" and "0 \<le> i" and "i \<le> stackCount" and "0 \<le> sectorCount"
    and "1 \<le> stackCount" and "sectorCount + 1 \<le> INT_MAX"
  shows "\<exists>out'. sphere_quad_loop sectorCount stackCount grid i out = Some out'
     \<and> mesh_size off out'
         (n + nat (sectorCount
                * (6 * (stackCount - i) - (if i = 0 then 3 else 0)
                     - (if i \<le> stackCount - 1 then 3 else 0))))"
  using assms(5,6,7)
proof (induction "nat (stackCount - i)" arbitrary: i out n)
  case 0
  then have i: "i = stackCount" by simp
  then have "\<not> i < stackCount" by simp
  then show ?case using 0 i assms(9) by (simp add: sphere_quad_loop.simps)
next
  case (Suc d)
  then have lt: "i < stackCount" and d: "d = nat (stackCount - (i + 1))" by simp_all
  let ?c = "(if i \<noteq> 0 then 3 else 0) + (if i \<noteq> stackCount - 1 then 3 else (0::nat))"
  have sc: "0 \<le> sectorCount + 1" using assms(8) by simp
  have "(i + 1) * (sectorCount + 1) \<le> stackCount * (sectorCount + 1)"
    using lt sc by (intro mult_right_mono) simp_all
  then have top: "i * (sectorCount + 1) + sectorCount + 1 \<le> int g"
    using assms(2,8) by (simp add: algebra_simps)
  have base: "0 \<le> i * (sectorCount + 1)" using Suc.prems(2) sc by simp
  have ii: "in_int (sectorCount + 1)" "in_int (i * (sectorCount + 1))"
    "in_int (i * (sectorCount + 1) + sectorCount)"
    "in_int (i * (sectorCount + 1) + sectorCount + 1)" "in_int (i + 1)"
    using top base assms(3,4,8,10) Suc.prems(2) lt
    unfolding in_int_def INT_MIN_def by linarith+
  obtain out1 where t:
    "sphere_triangle_loop sectorCount stackCount grid i 0 (i * (sectorCount + 1))
       (i * (sectorCount + 1) + sectorCount + 1) out = Some out1"
    and s1: "mesh_size off out1 (n + nat (sectorCount - 0) * ?c)"
    using sphere_triangle_loop_size[OF assms(1,2,3,4) Suc.prems(1,2) lt _ assms(8) _ _
        assms(10), of "i * (sectorCount + 1)" "i * (sectorCount + 1) + sectorCount + 1"]
    by auto
  have step: "sphere_quad_loop sectorCount stackCount grid i out =
      sphere_quad_loop sectorCount stackCount grid (i + 1) out1"
    by (subst sphere_quad_loop.simps)
       (simp only: lt if_True Let_def t option.case ii simp_thms)
  have i0: "0 \<le> i + 1" and i1: "i + 1 \<le> stackCount" using Suc.prems(2) lt by simp_all
  have e: "n + nat (sectorCount
                * (6 * (stackCount - i) - (if i = 0 then 3 else 0)
                     - (if i \<le> stackCount - 1 then 3 else 0)))
      = (n + nat (sectorCount - 0) * ?c)
        + nat (sectorCount
                * (6 * (stackCount - (i + 1)) - (if i + 1 = 0 then 3 else 0)
                     - (if i + 1 \<le> stackCount - 1 then 3 else 0)))"
  proof -
    have a: "int (nat (sectorCount - 0) * ?c) = sectorCount * int ?c"
      using assms(8) by simp
    have nn: "0 \<le> 6 * (stackCount - (i + 1)) - (if i + 1 = 0 then 3 else 0)
                     - (if i + 1 \<le> stackCount - 1 then 3 else (0::int))"
      using lt Suc.prems(2) by auto
    have b: "6 * (stackCount - i) - (if i = 0 then 3 else 0)
                     - (if i \<le> stackCount - 1 then 3 else 0)
        = int ?c + (6 * (stackCount - (i + 1)) - (if i + 1 = 0 then 3 else 0)
                     - (if i + 1 \<le> stackCount - 1 then 3 else 0))"
      using lt Suc.prems(2) by auto
    have "nat (sectorCount * (int ?c + (6 * (stackCount - (i + 1)) - (if i + 1 = 0 then 3 else 0)
                     - (if i + 1 \<le> stackCount - 1 then 3 else 0))))
       = nat (sectorCount * int ?c) + nat (sectorCount * (6 * (stackCount - (i + 1)) - (if i + 1 = 0 then 3 else 0)
                     - (if i + 1 \<le> stackCount - 1 then 3 else 0)))"
      unfolding distrib_left
      by (rule nat_add_distrib) (use assms(8) nn in \<open>simp_all only: mult_nonneg_nonneg of_nat_0_le_iff\<close>)
    moreover have "nat (sectorCount * int ?c) = nat (sectorCount - 0) * ?c"
      using a by (metis nat_int)
    ultimately show ?thesis unfolding b by simp
  qed
  show ?case
    unfolding step e by (rule Suc.hyps(1)[OF d s1 i0 i1])
qed

text \<open>
  When the grid size is in the range of \<open>int\<close>, so is every count and index.
\<close>

lemma counts_in_range:
  fixes sectorCount stackCount :: int
  assumes "1 \<le> sectorCount" and "1 \<le> stackCount"
    and "(stackCount + 1) * (sectorCount + 1) \<le> INT_MAX"
  shows "sectorCount + 1 \<le> INT_MAX" and "stackCount + 1 \<le> INT_MAX"
proof -
  have "1 * (sectorCount + 1) \<le> (stackCount + 1) * (sectorCount + 1)"
    using assms by (intro mult_right_mono) simp_all
  then show "sectorCount + 1 \<le> INT_MAX" using assms(3) by simp
  have "(stackCount + 1) * 1 \<le> (stackCount + 1) * (sectorCount + 1)"
    using assms by (intro mult_left_mono) simp_all
  then show "stackCount + 1 \<le> INT_MAX" using assms(3) by simp
qed

lemma sphere_grid:
  assumes "1 \<le> sectorCount" and "1 \<le> stackCount"
    and "(stackCount + 1) * (sectorCount + 1) \<le> INT_MAX"
  shows "\<exists>grid. sphere_stack_loop radius pos sectorCount stackCount 0 ([], [], []) = Some grid
     \<and> mesh_size (0, 0, 0) grid (nat (stackCount + 1) * nat (sectorCount + 1))"
  using sphere_stack_loop_size[of "(0, 0, 0)" "([], [], [])" 0 0 stackCount sectorCount
      radius pos] counts_in_range[OF assms] assms(1,2)
  by (simp add: mesh_size_def)

text \<open>
  With at least one sector and one stack and a grid size in the range of \<open>int\<close>, no
  operation overflows, every read of the grid is in range, and each output vector grows
  by the same number of elements.
\<close>

lemma createSphere_size:
  assumes "1 \<le> sectorCount" and "1 \<le> stackCount"
    and "(stackCount + 1) * (sectorCount + 1) \<le> INT_MAX"
  shows "\<exists>vs ns us.
     createSphere radius sectorCount stackCount out_vertices out_normals out_uvs pos
       = Some (vs, ns, us)
     \<and> int (length vs)
         = int (length out_vertices) + (stackCount * sectorCount * 6 - 2 * sectorCount * 3)
     \<and> int (length ns)
         = int (length out_normals) + (stackCount * sectorCount * 6 - 2 * sectorCount * 3)
     \<and> int (length us)
         = int (length out_uvs) + (stackCount * sectorCount * 6 - 2 * sectorCount * 3)"
proof -
  let ?g = "nat (stackCount + 1) * nat (sectorCount + 1)"
  let ?off = "(length out_vertices, length out_normals, length out_uvs)"
  obtain grid where
    gr: "sphere_stack_loop radius pos sectorCount stackCount 0 ([], [], []) = Some grid"
    and g: "mesh_size (0, 0, 0) grid ?g"
    using sphere_grid[OF assms] by blast
  have gi: "int ?g = (stackCount + 1) * (sectorCount + 1)" using assms by simp
  have gm: "int ?g \<le> INT_MAX" using assms(3) gi by simp
  have sm: "stackCount \<le> INT_MAX" using counts_in_range(2)[OF assms] by simp
  have o: "mesh_size ?off (out_vertices, out_normals, out_uvs) 0"
    by (simp add: mesh_size_def)
  obtain out' where r: "sphere_quad_loop sectorCount stackCount grid 0
        (out_vertices, out_normals, out_uvs) = Some out'"
    and s: "mesh_size ?off out'
         (0 + nat (sectorCount
                * (6 * (stackCount - 0) - (if (0::int) = 0 then 3 else 0)
                     - (if 0 \<le> stackCount - 1 then 3 else 0))))"
    using sphere_quad_loop_size[OF g gi gm sm o, of 0] assms(1,2)
      counts_in_range(1)[OF assms] by auto
  obtain vs ns us where out': "out' = (vs, ns, us)" by (cases out' rule: prod_cases3)
  have "0 \<le> sectorCount * (6 * stackCount - 6)" using assms by simp
  then have "int (nat (sectorCount * (6 * stackCount - 6)))
      = stackCount * sectorCount * 6 - 2 * sectorCount * 3"
    by (simp add: algebra_simps)
  then show ?thesis
    using r s assms(2) unfolding out' createSphere_def gr option.case mesh_size_def by simp
qed

text \<open>
  What one stack contributes: \<open>sectorCount\<close> times three elements for the triangle that
  is skipped on the first stack, plus as many for the one skipped on the last.
\<close>

lemma sphere_stack_contribution:
  assumes "1 \<le> sectorCount" and "1 \<le> stackCount"
    and "(stackCount + 1) * (sectorCount + 1) \<le> INT_MAX"
    and "sphere_stack_loop radius pos sectorCount stackCount 0 ([], [], []) = Some grid"
    and "0 \<le> i" and "i < stackCount"
  shows "\<exists>vs ns us.
     sphere_triangle_loop sectorCount stackCount grid i 0 (i * (sectorCount + 1))
         (i * (sectorCount + 1) + sectorCount + 1) (ov, on, ou) = Some (vs, ns, us)
     \<and> length vs = length ov + nat sectorCount
           * ((if i \<noteq> 0 then 3 else 0) + (if i \<noteq> stackCount - 1 then 3 else 0))
     \<and> length ns = length on + nat sectorCount
           * ((if i \<noteq> 0 then 3 else 0) + (if i \<noteq> stackCount - 1 then 3 else 0))
     \<and> length us = length ou + nat sectorCount
           * ((if i \<noteq> 0 then 3 else 0) + (if i \<noteq> stackCount - 1 then 3 else 0))"
proof -
  let ?g = "nat (stackCount + 1) * nat (sectorCount + 1)"
  let ?off = "(length ov, length on, length ou)"
  have g: "mesh_size (0, 0, 0) grid ?g"
    using sphere_grid[OF assms(1,2,3), of radius pos] assms(4) by simp
  have gi: "int ?g = (stackCount + 1) * (sectorCount + 1)" using assms by simp
  have gm: "int ?g \<le> INT_MAX" using assms(3) gi by simp
  have sm: "stackCount \<le> INT_MAX" using counts_in_range(2)[OF assms(1,2,3)] by simp
  have o: "mesh_size ?off (ov, on, ou) 0" by (simp add: mesh_size_def)
  have sc: "0 \<le> sectorCount" using assms(1) by simp
  obtain out' where
    t: "sphere_triangle_loop sectorCount stackCount grid i 0 (i * (sectorCount + 1))
         (i * (sectorCount + 1) + sectorCount + 1) (ov, on, ou) = Some out'"
    and s: "mesh_size ?off out' (0 + nat (sectorCount - 0)
           * ((if i \<noteq> 0 then 3 else 0) + (if i \<noteq> stackCount - 1 then 3 else 0)))"
    using sphere_triangle_loop_size[OF g gi gm sm o assms(5,6) _ sc _ _
        counts_in_range(1)[OF assms(1,2,3)], of
        "i * (sectorCount + 1)" "i * (sectorCount + 1) + sectorCount + 1"]
    by auto
  obtain vs ns us where out': "out' = (vs, ns, us)" by (cases out' rule: prod_cases3)
  show ?thesis using t s unfolding out' mesh_size_def by simp
qed

text \<open>
  With \<open>sectorCount = INT_MAX\<close> the test \<open>j <= sectorCount\<close> of line 53 never fails, and
  \<open>++j\<close> overflows at \<open>j = INT_MAX\<close>.
\<close>

lemma sphere_sector_loop_overflow:
  "0 \<le> j \<Longrightarrow> j \<le> INT_MAX \<Longrightarrow>
   sphere_sector_loop radius pos INT_MAX stackCount i xy z j m = None"
proof (induction "nat (INT_MAX - j)" arbitrary: j m)
  case 0
  then have j: "j = INT_MAX" by simp
  have "\<not> in_int (INT_MAX + 1)" by (simp add: in_int_def)
  then show ?case unfolding j
    by (cases m rule: prod_cases3) (simp add: sphere_sector_loop.simps Let_def)
next
  case (Suc d)
  then have lt: "j < INT_MAX" and d: "d = nat (INT_MAX - (j + 1))" by simp_all
  have ii: "in_int (j + 1)" using lt Suc.prems(1) by (intro in_intI) simp_all
  have le: "j \<le> INT_MAX" using lt by simp
  obtain vs ns us where m: "m = (vs, ns, us)" by (cases m rule: prod_cases3)
  have "\<exists>a b c. sphere_sector_loop radius pos INT_MAX stackCount i xy z j (vs, ns, us) =
      sphere_sector_loop radius pos INT_MAX stackCount i xy z (j + 1)
        (vs @ [a], ns @ [b], us @ [c])"
    by (subst sphere_sector_loop.simps, simp only: le ii if_True Let_def, blast)
  then obtain a b c where
    step: "sphere_sector_loop radius pos INT_MAX stackCount i xy z j (vs, ns, us) =
      sphere_sector_loop radius pos INT_MAX stackCount i xy z (j + 1)
        (vs @ [a], ns @ [b], us @ [c])"
    by blast
  have "0 \<le> j + 1" "j + 1 \<le> INT_MAX" using lt Suc.prems(1) by simp_all
  then show ?case unfolding m step by (rule Suc.hyps(1)[OF d])
qed

text \<open>
  C4, as amended. For \<open>sectorCount \<ge> 1\<close> and \<open>stackCount \<ge> 1\<close> whose grid size
  \<open>(stackCount + 1) * (sectorCount + 1)\<close> is at most \<open>INT_MAX\<close>, the generator returns,
  and it has appended \<open>stackCount * sectorCount * 6 - 2 * sectorCount * 3\<close> elements to
  each of \<open>out_vertices\<close>, \<open>out_normals\<close> and \<open>out_uvs\<close>. Stack \<open>i\<close> contributes three
  elements per sector unless it is the first stack and three more unless it is the last:
  one triangle per sector at each pole stack and two at every stack between them.
\<close>

theorem createSphere_vertex_count:
  assumes "1 \<le> sectorCount" and "1 \<le> stackCount"
    and "(stackCount + 1) * (sectorCount + 1) \<le> INT_MAX"
  shows "(\<exists>vs ns us.
     createSphere radius sectorCount stackCount out_vertices out_normals out_uvs pos
       = Some (vs, ns, us)
     \<and> int (length vs)
         = int (length out_vertices) + (stackCount * sectorCount * 6 - 2 * sectorCount * 3)
     \<and> int (length ns)
         = int (length out_normals) + (stackCount * sectorCount * 6 - 2 * sectorCount * 3)
     \<and> int (length us)
         = int (length out_uvs) + (stackCount * sectorCount * 6 - 2 * sectorCount * 3))
   \<and> (\<exists>grid. sphere_stack_loop radius pos sectorCount stackCount 0 ([], [], []) = Some grid
        \<and> (\<forall>i ov on ou. 0 \<le> i \<and> i < stackCount \<longrightarrow>
             (\<exists>vs ns us.
                sphere_triangle_loop sectorCount stackCount grid i 0 (i * (sectorCount + 1))
                    (i * (sectorCount + 1) + sectorCount + 1) (ov, on, ou) = Some (vs, ns, us)
                \<and> length vs = length ov + nat sectorCount
                    * ((if i \<noteq> 0 then 3 else 0) + (if i \<noteq> stackCount - 1 then 3 else 0))
                \<and> length ns = length on + nat sectorCount
                    * ((if i \<noteq> 0 then 3 else 0) + (if i \<noteq> stackCount - 1 then 3 else 0))
                \<and> length us = length ou + nat sectorCount
                    * ((if i \<noteq> 0 then 3 else 0) + (if i \<noteq> stackCount - 1 then 3 else 0)))))"
proof (rule conjI)
  show "\<exists>vs ns us.
     createSphere radius sectorCount stackCount out_vertices out_normals out_uvs pos
       = Some (vs, ns, us)
     \<and> int (length vs)
         = int (length out_vertices) + (stackCount * sectorCount * 6 - 2 * sectorCount * 3)
     \<and> int (length ns)
         = int (length out_normals) + (stackCount * sectorCount * 6 - 2 * sectorCount * 3)
     \<and> int (length us)
         = int (length out_uvs) + (stackCount * sectorCount * 6 - 2 * sectorCount * 3)"
    using assms by (rule createSphere_size)
next
  obtain grid where
    gr: "sphere_stack_loop radius pos sectorCount stackCount 0 ([], [], []) = Some grid"
    using sphere_grid[OF assms] by blast
  show "\<exists>grid. sphere_stack_loop radius pos sectorCount stackCount 0 ([], [], []) = Some grid
        \<and> (\<forall>i ov on ou. 0 \<le> i \<and> i < stackCount \<longrightarrow>
             (\<exists>vs ns us.
                sphere_triangle_loop sectorCount stackCount grid i 0 (i * (sectorCount + 1))
                    (i * (sectorCount + 1) + sectorCount + 1) (ov, on, ou) = Some (vs, ns, us)
                \<and> length vs = length ov + nat sectorCount
                    * ((if i \<noteq> 0 then 3 else 0) + (if i \<noteq> stackCount - 1 then 3 else 0))
                \<and> length ns = length on + nat sectorCount
                    * ((if i \<noteq> 0 then 3 else 0) + (if i \<noteq> stackCount - 1 then 3 else 0))
                \<and> length us = length ou + nat sectorCount
                    * ((if i \<noteq> 0 then 3 else 0) + (if i \<noteq> stackCount - 1 then 3 else 0))))"
    using sphere_stack_contribution[OF assms gr] gr by (intro exI[of _ grid]) blast
qed

text \<open>
  The sphere of a snowball: 15 sectors and 15 stacks give 1260 vertices, 45 from each of
  the two pole stacks.
\<close>

theorem createSphere_vertex_count_witness:
  "(\<exists>vs ns us.
     createSphere (3/4) 15 15 [] [] [] (Vec3 0 0 0) = Some (vs, ns, us)
     \<and> int (length vs) = 1260 \<and> int (length ns) = 1260 \<and> int (length us) = 1260)
   \<and> (\<exists>grid vs ns us.
        sphere_stack_loop (3/4) (Vec3 0 0 0) 15 15 0 ([], [], []) = Some grid
        \<and> sphere_triangle_loop 15 15 grid 0 0 0 16 ([], [], []) = Some (vs, ns, us)
        \<and> length vs = 45)"
proof -
  have h: "(1::int) \<le> 15" "((15::int) + 1) * (15 + 1) \<le> INT_MAX"
    by (simp_all add: INT_MAX_def)
  note t = createSphere_vertex_count[OF h(1) h(1) h(2), of "3/4" "[]" "[]" "[]" "Vec3 0 0 0"]
  have a: "\<exists>vs ns us.
     createSphere (3/4) 15 15 [] [] [] (Vec3 0 0 0) = Some (vs, ns, us)
     \<and> int (length vs) = 1260 \<and> int (length ns) = 1260 \<and> int (length us) = 1260"
    using t by simp
  obtain grid where
    g: "sphere_stack_loop (3/4) (Vec3 0 0 0) 15 15 0 ([], [], []) = Some grid"
    and p: "\<forall>i ov on ou. 0 \<le> i \<and> i < 15 \<longrightarrow>
             (\<exists>vs ns us.
                sphere_triangle_loop 15 15 grid i 0 (i * (15 + 1))
                    (i * (15 + 1) + 15 + 1) (ov, on, ou) = Some (vs, ns, us)
                \<and> length vs = length ov + nat 15
                    * ((if i \<noteq> 0 then 3 else 0) + (if i \<noteq> 15 - 1 then 3 else 0))
                \<and> length ns = length on + nat 15
                    * ((if i \<noteq> 0 then 3 else 0) + (if i \<noteq> 15 - 1 then 3 else 0))
                \<and> length us = length ou + nat 15
                    * ((if i \<noteq> 0 then 3 else 0) + (if i \<noteq> 15 - 1 then 3 else 0)))"
    using t by blast
  have "\<exists>vs ns us. sphere_triangle_loop 15 15 grid 0 0 0 16 ([], [], []) = Some (vs, ns, us)
        \<and> length vs = 45"
    using p[rule_format, of 0 "[]" "[]" "[]"] by auto
  then show ?thesis using a g by blast
qed

text \<open>
  C4 as stated fails: \<open>sectorCount = 2147483647\<close> and \<open>stackCount = 1\<close> are both at
  least 1, and the generator does not return: the first loop over the sectors has no
  exit, and its counter overflows.
\<close>

theorem createSphere_counterexample:
  "createSphere 1 2147483647 1 [] [] [] (Vec3 0 0 0) = None"
proof -
  have s: "\<And>xy z. sphere_sector_loop 1 (Vec3 0 0 0) INT_MAX 1 0 xy z 0 ([], [], []) = None"
    by (rule sphere_sector_loop_overflow) (simp_all add: INT_MAX_def)
  have "sphere_stack_loop 1 (Vec3 0 0 0) INT_MAX 1 0 ([], [], []) = None"
    by (subst sphere_stack_loop.simps) (simp add: Let_def s)
  then have "createSphere 1 INT_MAX 1 [] [] [] (Vec3 0 0 0) = None"
    by (simp add: createSphere_def)
  then show ?thesis by (simp add: INT_MAX_def)
qed

section \<open>Firing\<close>

lemma SnowBall_created:
  assumes "1 \<le> sectorCount" and "1 \<le> stackCount"
    and "(stackCount + 1) * (sectorCount + 1) \<le> INT_MAX"
  shows "\<exists>b. SnowBall ext pos dir r sectorCount stackCount spd = Some b
     \<and> position b = pos \<and> direction b = dir \<and> speed b = spd \<and> collider_radius b = r
     \<and> IsSnowBall b"
proof -
  obtain vs ns us where
    "createSphere r sectorCount stackCount [] [] [] pos = Some (vs, ns, us)"
    using createSphere_size[OF assms, of r "[]" "[]" "[]" pos] by blast
  then show ?thesis by (simp add: SnowBall_def)
qed

lemma CreateSnowBall_fires:
  assumes "left_pressed inp" and "player_next_creation_time p < time_at_test inp"
  shows "\<exists>b. CreateSnowBall ext inp p =
            Some (Some b, (mouse_look inp p)\<lparr>player_next_creation_time :=
                             time_at_set inp + player_timedelay p\<rparr>)
     \<and> position b = vadd (player_position p) (vscale (CameraDirection (mouse_look inp p)) 1.5)
     \<and> direction b = CameraDirection (mouse_look inp p)
     \<and> IsSnowBall b"
proof -
  let ?q = "mouse_look inp p"
  have f: "player_next_creation_time ?q = player_next_creation_time p"
    "player_timedelay ?q = player_timedelay p" "player_position ?q = player_position p"
    by (simp_all add: mouse_look_def Let_def)
  obtain b where b: "SnowBall ext (vadd (player_position ?q) (vscale (CameraDirection ?q) 1.5))
         (CameraDirection ?q) 0.75 15 15 13 = Some b"
    and pb: "position b = vadd (player_position ?q) (vscale (CameraDirection ?q) 1.5)"
    and db: "direction b = CameraDirection ?q" and sb: "IsSnowBall b"
    using SnowBall_created[of 15 15 ext "vadd (player_position ?q) (vscale (CameraDirection ?q) 1.5)"
        "CameraDirection ?q" "0.75" "13"] by (auto simp add: INT_MAX_def)
  have "CreateSnowBall ext inp p =
      Some (Some b, ?q\<lparr>player_next_creation_time := time_at_set inp + player_timedelay p\<rparr>)"
    using assms b by (simp add: CreateSnowBall_def Let_def f)
  then show ?thesis using pb db sb f by auto
qed

lemma CreateSnowBall_idle:
  assumes "\<not> (left_pressed inp \<and> player_next_creation_time p < time_at_test inp)"
  shows "CreateSnowBall ext inp p = Some (None, mouse_look inp p)"
proof -
  have "player_next_creation_time (mouse_look inp p) = player_next_creation_time p"
    by (simp add: mouse_look_def Let_def)
  then show ?thesis using assms by (auto simp add: CreateSnowBall_def Let_def)
qed

text \<open>
  C3, as amended. \<open>CreateSnowBall\<close> returns a snowball exactly when the left button is
  pressed and the clock is strictly after the recorded next creation time. The snowball
  is placed at the player's position plus 1.5 times the camera direction after the mouse
  look and travels along that direction, and the next creation time becomes the clock
  reading of the assignment plus \<open>timedelay\<close>. In every other case nothing is created and
  only the camera angles change. After a shot, no call whose clock reading is at most
  that next creation time creates anything, and such a call leaves the next creation
  time and the delay as they are.
\<close>

theorem CreateSnowBall_rate_limited:
  "(left_pressed inp \<and> player_next_creation_time p < time_at_test inp \<longrightarrow>
      (\<exists>b. CreateSnowBall ext inp p =
              Some (Some b, (mouse_look inp p)\<lparr>player_next_creation_time :=
                               time_at_set inp + player_timedelay p\<rparr>)
         \<and> position b
             = vadd (player_position p) (vscale (CameraDirection (mouse_look inp p)) 1.5)
         \<and> direction b = CameraDirection (mouse_look inp p)
         \<and> IsSnowBall b))
   \<and> (\<not> (left_pressed inp \<and> player_next_creation_time p < time_at_test inp) \<longrightarrow>
        CreateSnowBall ext inp p = Some (None, mouse_look inp p))
   \<and> (\<forall>b p1 inp'. CreateSnowBall ext inp p = Some (Some b, p1)
          \<and> time_at_test inp' \<le> time_at_set inp + player_timedelay p \<longrightarrow>
        CreateSnowBall ext inp' p1 = Some (None, mouse_look inp' p1)
        \<and> player_next_creation_time (mouse_look inp' p1) = player_next_creation_time p1
        \<and> player_timedelay (mouse_look inp' p1) = player_timedelay p1)"
proof (intro conjI allI impI)
  assume "left_pressed inp \<and> player_next_creation_time p < time_at_test inp"
  then show "\<exists>b. CreateSnowBall ext inp p =
              Some (Some b, (mouse_look inp p)\<lparr>player_next_creation_time :=
                               time_at_set inp + player_timedelay p\<rparr>)
         \<and> position b
             = vadd (player_position p) (vscale (CameraDirection (mouse_look inp p)) 1.5)
         \<and> direction b = CameraDirection (mouse_look inp p)
         \<and> IsSnowBall b"
    using CreateSnowBall_fires by blast
next
  assume "\<not> (left_pressed inp \<and> player_next_creation_time p < time_at_test inp)"
  then show "CreateSnowBall ext inp p = Some (None, mouse_look inp p)"
    by (rule CreateSnowBall_idle)
next
  fix b p1 and inp' :: PlayerInput
  assume h: "CreateSnowBall ext inp p = Some (Some b, p1)
          \<and> time_at_test inp' \<le> time_at_set inp + player_timedelay p"
  have fired: "left_pressed inp \<and> player_next_creation_time p < time_at_test inp"
  proof (rule ccontr)
    assume "\<not> ?thesis"
    then have "CreateSnowBall ext inp p = Some (None, mouse_look inp p)"
      by (rule CreateSnowBall_idle)
    then show False using h by simp
  qed
  then obtain b' where "CreateSnowBall ext inp p =
              Some (Some b', (mouse_look inp p)\<lparr>player_next_creation_time :=
                               time_at_set inp + player_timedelay p\<rparr>)"
    using CreateSnowBall_fires[of inp p ext] by blast
  then have p1: "p1 = (mouse_look inp p)\<lparr>player_next_creation_time :=
                               time_at_set inp + player_timedelay p\<rparr>"
    using h by simp
  then have n: "player_next_creation_time p1 = time_at_set inp + player_timedelay p"
    by simp
  show "CreateSnowBall ext inp' p1 = Some (None, mouse_look inp' p1)"
    using h n by (intro CreateSnowBall_idle) simp
  show "player_next_creation_time (mouse_look inp' p1) = player_next_creation_time p1"
    by (simp add: mouse_look_def Let_def)
  show "player_timedelay (mouse_look inp' p1) = player_timedelay p1"
    by (simp add: mouse_look_def Let_def)
qed

lemma mouse_look_centre:
  "mouse_look \<lparr>xpos = 512, ypos = 384, left_pressed = f, time_at_test = t, time_at_set = s\<rparr>
     (new_Player now) = new_Player now"
  "mouse_look \<lparr>xpos = 512, ypos = 384, left_pressed = f, time_at_test = t, time_at_set = s\<rparr>
     ((new_Player now)\<lparr>player_next_creation_time := n\<rparr>)
     = (new_Player now)\<lparr>player_next_creation_time := n\<rparr>"
  by (simp_all add: mouse_look_def new_Player_def Let_def)

text \<open>
  A player created at time 0 with the cursor in the window centre: a shot at time 1, no
  shot at time 1.1 with the button held, no shot without the button.
\<close>

theorem CreateSnowBall_rate_limited_witness:
  "(\<exists>b. CreateSnowBall no_assets
          \<lparr>xpos = 512, ypos = 384, left_pressed = True, time_at_test = 1, time_at_set = 1\<rparr>
          (new_Player 0)
        = Some (Some b, (new_Player 0)\<lparr>player_next_creation_time := 6/5\<rparr>)
      \<and> position b = Vec3 0 0 (3/2) \<and> direction b = Vec3 0 0 1)
   \<and> CreateSnowBall no_assets
          \<lparr>xpos = 512, ypos = 384, left_pressed = True, time_at_test = 11/10, time_at_set = 11/10\<rparr>
          ((new_Player 0)\<lparr>player_next_creation_time := 6/5\<rparr>)
        = Some (None, (new_Player 0)\<lparr>player_next_creation_time := 6/5\<rparr>)
   \<and> CreateSnowBall no_assets
          \<lparr>xpos = 512, ypos = 384, left_pressed = False, time_at_test = 1, time_at_set = 1\<rparr>
          (new_Player 0)
        = Some (None, new_Player 0)"
proof -
  let ?i1 = "\<lparr>xpos = 512, ypos = 384, left_pressed = True, time_at_test = 1, time_at_set = 1\<rparr>"
  let ?i2 = "\<lparr>xpos = 512, ypos = 384, left_pressed = True, time_at_test = 11/10,
              time_at_set = 11/10\<rparr>"
  let ?i3 = "\<lparr>xpos = 512, ypos = 384, left_pressed = False, time_at_test = 1, time_at_set = 1\<rparr>"
  let ?p1 = "(new_Player 0)\<lparr>player_next_creation_time := 6/5\<rparr>"
  have h1: "left_pressed ?i1 \<and> player_next_creation_time (new_Player 0) < time_at_test ?i1"
    by (simp add: new_Player_def)
  have d: "CameraDirection (new_Player 0) = Vec3 0 0 1"
    by (simp add: CameraDirection_def new_Player_def)
  have n: "(new_Player 0)\<lparr>player_next_creation_time :=
              time_at_set ?i1 + player_timedelay (new_Player 0)\<rparr> = ?p1"
    by (simp add: new_Player_def)
  obtain b where b: "CreateSnowBall no_assets ?i1 (new_Player 0) = Some (Some b, ?p1)"
    and pb: "position b = Vec3 0 0 (3/2)" and db: "direction b = Vec3 0 0 1"
    using CreateSnowBall_rate_limited[of ?i1 "new_Player 0" no_assets] h1
    unfolding mouse_look_centre d n by (auto simp add: new_Player_def vadd_def vscale_def)
  have h2: "time_at_test ?i2 \<le> time_at_set ?i1 + player_timedelay (new_Player 0)"
    by (simp add: new_Player_def)
  have c2: "CreateSnowBall no_assets ?i2 ?p1 = Some (None, ?p1)"
    using CreateSnowBall_rate_limited[of ?i1 "new_Player 0" no_assets] b h2
    unfolding mouse_look_centre by (metis mouse_look_centre(2))
  have c3: "CreateSnowBall no_assets ?i3 (new_Player 0) = Some (None, new_Player 0)"
    using CreateSnowBall_rate_limited[of ?i3 "new_Player 0" no_assets]
    unfolding mouse_look_centre by simp
  show ?thesis using b pb db c2 c3 by blast
qed

text \<open>
  C3 as stated fails at the boundary: after a shot at time 0.8 the next creation time is
  1; at time 1 the button is held and the elapsed time equals \<open>timedelay\<close>, yet nothing
  is created, since line 349 compares with \<open>>\<close>.
\<close>

theorem CreateSnowBall_counterexample:
  "map_option snd (CreateSnowBall no_assets
       \<lparr>xpos = 512, ypos = 384, left_pressed = True, time_at_test = 4/5, time_at_set = 4/5\<rparr>
       (new_Player 0))
     = Some ((new_Player 0)\<lparr>player_next_creation_time := 1\<rparr>)
   \<and> CreateSnowBall no_assets
       \<lparr>xpos = 512, ypos = 384, left_pressed = True, time_at_test = 1, time_at_set = 1\<rparr>
       ((new_Player 0)\<lparr>player_next_creation_time := 1\<rparr>)
     = Some (None, (new_Player 0)\<lparr>player_next_creation_time := 1\<rparr>)
   \<and> player_timedelay ((new_Player 0)\<lparr>player_next_creation_time := 1\<rparr>) \<le> 1 - 4/5"
proof -
  let ?i1 = "\<lparr>xpos = 512, ypos = 384, left_pressed = True, time_at_test = 4/5,
              time_at_set = 4/5\<rparr>"
  have "left_pressed ?i1" "player_next_creation_time (new_Player 0) < time_at_test ?i1"
    by (simp_all add: new_Player_def)
  then obtain b where "CreateSnowBall no_assets ?i1 (new_Player 0) =
      Some (Some b, (mouse_look ?i1 (new_Player 0))\<lparr>player_next_creation_time :=
                             time_at_set ?i1 + player_timedelay (new_Player 0)\<rparr>)"
    using CreateSnowBall_fires[of ?i1 "new_Player 0" no_assets] by blast
  then have a: "map_option snd (CreateSnowBall no_assets ?i1 (new_Player 0))
     = Some ((new_Player 0)\<lparr>player_next_creation_time := 1\<rparr>)"
    unfolding mouse_look_centre by (simp add: new_Player_def)
  have b: "CreateSnowBall no_assets
       \<lparr>xpos = 512, ypos = 384, left_pressed = True, time_at_test = 1, time_at_set = 1\<rparr>
       ((new_Player 0)\<lparr>player_next_creation_time := 1\<rparr>)
     = Some (None, (new_Player 0)\<lparr>player_next_creation_time := 1\<rparr>)"
    by (subst CreateSnowBall_idle) (simp_all add: mouse_look_centre)
  show ?thesis using a b by (simp add: new_Player_def)
qed

section \<open>Spawning enemies\<close>

lemma CreateEnemy_waits:
  "time_test \<le> creator_next_creation_time ec \<Longrightarrow>
   CreateEnemy ext pos time_test time_set ec = (None, ec)"
  by (simp add: CreateEnemy_def)

lemma uniform_real_range:
  assumes "0 \<le> g 0" and "g 0 \<le> 1" and "fst d \<le> snd d"
  shows "fst d \<le> fst (uniform_real d g) \<and> fst (uniform_real d g) \<le> snd d"
proof -
  have "0 \<le> (snd d - fst d) * g 0" using assms by simp
  moreover have "(snd d - fst d) * g 0 \<le> (snd d - fst d) * 1"
    using assms by (intro mult_left_mono) simp_all
  ultimately show ?thesis by (simp add: uniform_real_def)
qed

lemma CreateEnemy_spawns:
  assumes "creator_next_creation_time ec < time_test"
  shows "\<exists>e. CreateEnemy ext pos time_test time_set ec =
           (Some e, ec\<lparr>creator_next_creation_time := time_set + creator_timedelay ec,
                       rng := (\<lambda>n. rng ec (n + 6))\<rparr>)
     \<and> position e =
         vadd pos
           (vscale (Vec3 (sin (fst (uniform_real (angle_dist ec) (\<lambda>n. rng ec (n + 3))))) 0
                         (cos (fst (uniform_real (angle_dist ec) (\<lambda>n. rng ec (n + 3))))))
              (fst (uniform_real (radius_dist ec) (\<lambda>n. rng ec (n + 4)))))
     \<and> vy (position e) = vy pos
     \<and> \<not> IsSnowBall e"
  using assms
  by (simp add: CreateEnemy_def uniform_real_def Let_def CubeEnemy_def vadd_def vscale_def
        eval_nat_numeral split: prod.splits)

text \<open>
  C5. While the clock is not after the next creation time the spawner produces nothing
  and keeps its state. Otherwise it produces an enemy whose position is the reference
  position plus the drawn radius times \<open>(sin a, 0, cos a)\<close> for the drawn planar angle
  \<open>a\<close> (the fourth and fifth draws of the engine), so its \<open>y\<close> is the \<open>y\<close> of the
  reference position; the next creation time becomes the clock reading plus the delay,
  and no later call within the delay produces anything. A canonical sample in \<open>[0, 1]\<close>
  puts the drawn radius between the two bounds of the radius distribution.
\<close>

theorem CreateEnemy_ring:
  "(time_test \<le> creator_next_creation_time ec \<longrightarrow>
      CreateEnemy ext pos time_test time_set ec = (None, ec))
   \<and> (creator_next_creation_time ec < time_test \<longrightarrow>
        (\<exists>e ec'. CreateEnemy ext pos time_test time_set ec = (Some e, ec')
           \<and> position e =
               vadd pos
                 (vscale
                    (Vec3 (sin (fst (uniform_real (angle_dist ec) (\<lambda>n. rng ec (n + 3))))) 0
                          (cos (fst (uniform_real (angle_dist ec) (\<lambda>n. rng ec (n + 3))))))
                    (fst (uniform_real (radius_dist ec) (\<lambda>n. rng ec (n + 4)))))
           \<and> vy (position e) = vy pos
           \<and> \<not> IsSnowBall e
           \<and> creator_next_creation_time ec' = time_set + creator_timedelay ec
           \<and> (\<forall>t s p. t - time_set < creator_timedelay ec \<longrightarrow>
                 CreateEnemy ext p t s ec' = (None, ec'))))
   \<and> (0 \<le> rng ec 4 \<and> rng ec 4 \<le> 1 \<and> fst (radius_dist ec) \<le> snd (radius_dist ec) \<longrightarrow>
        fst (radius_dist ec) \<le> fst (uniform_real (radius_dist ec) (\<lambda>n. rng ec (n + 4)))
        \<and> fst (uniform_real (radius_dist ec) (\<lambda>n. rng ec (n + 4))) \<le> snd (radius_dist ec))"
proof (intro conjI impI)
  assume "time_test \<le> creator_next_creation_time ec"
  then show "CreateEnemy ext pos time_test time_set ec = (None, ec)"
    by (rule CreateEnemy_waits)
next
  assume a: "creator_next_creation_time ec < time_test"
  let ?ec' = "ec\<lparr>creator_next_creation_time := time_set + creator_timedelay ec,
                       rng := (\<lambda>n. rng ec (n + 6))\<rparr>"
  obtain e where e: "CreateEnemy ext pos time_test time_set ec = (Some e, ?ec')"
    and pe: "position e =
         vadd pos
           (vscale (Vec3 (sin (fst (uniform_real (angle_dist ec) (\<lambda>n. rng ec (n + 3))))) 0
                         (cos (fst (uniform_real (angle_dist ec) (\<lambda>n. rng ec (n + 3))))))
              (fst (uniform_real (radius_dist ec) (\<lambda>n. rng ec (n + 4)))))"
    and ye: "vy (position e) = vy pos" and se: "\<not> IsSnowBall e"
    using CreateEnemy_spawns[OF a, of ext pos time_set] by blast
  have w: "\<forall>t s p. t - time_set < creator_timedelay ec \<longrightarrow>
                 CreateEnemy ext p t s ?ec' = (None, ?ec')"
    by (intro allI impI CreateEnemy_waits) simp
  show "\<exists>e ec'. CreateEnemy ext pos time_test time_set ec = (Some e, ec')
           \<and> position e =
               vadd pos
                 (vscale
                    (Vec3 (sin (fst (uniform_real (angle_dist ec) (\<lambda>n. rng ec (n + 3))))) 0
                          (cos (fst (uniform_real (angle_dist ec) (\<lambda>n. rng ec (n + 3))))))
                    (fst (uniform_real (radius_dist ec) (\<lambda>n. rng ec (n + 4)))))
           \<and> vy (position e) = vy pos
           \<and> \<not> IsSnowBall e
           \<and> creator_next_creation_time ec' = time_set + creator_timedelay ec
           \<and> (\<forall>t s p. t - time_set < creator_timedelay ec \<longrightarrow>
                 CreateEnemy ext p t s ec' = (None, ec'))"
    using e pe ye se w by (intro exI[of _ e] exI[of _ ?ec']) simp
next
  assume "0 \<le> rng ec 4 \<and> rng ec 4 \<le> 1 \<and> fst (radius_dist ec) \<le> snd (radius_dist ec)"
  then show "fst (radius_dist ec) \<le> fst (uniform_real (radius_dist ec) (\<lambda>n. rng ec (n + 4)))"
    and "fst (uniform_real (radius_dist ec) (\<lambda>n. rng ec (n + 4))) \<le> snd (radius_dist ec)"
    using uniform_real_range[of "\<lambda>n. rng ec (n + 4)" "radius_dist ec"] by simp_all
qed

text \<open>
  An enemy creator that spawned at time 0: the first call is too early, a call at time 4
  spawns on the ring around \<open>(1, 2, 3)\<close> in the plane \<open>y = 2\<close>, and a call at time 6,
  less than 3 seconds later, spawns nothing.
\<close>

theorem CreateEnemy_ring_witness:
  "CreateEnemy no_assets (Vec3 1 2 3) 0 0 (new_EnemyCreator 0 (\<lambda>n. 1/2) 3 5 50 (1/2) 4)
     = (None, new_EnemyCreator 0 (\<lambda>n. 1/2) 3 5 50 (1/2) 4)
   \<and> (\<exists>e ec'. CreateEnemy no_assets (Vec3 1 2 3) 4 4
                  (new_EnemyCreator 0 (\<lambda>n. 1/2) 3 5 50 (1/2) 4) = (Some e, ec')
         \<and> vy (position e) = 2
         \<and> creator_next_creation_time ec' = 7
         \<and> CreateEnemy no_assets (Vec3 1 2 3) 6 6 ec' = (None, ec'))
   \<and> 5 \<le> fst (uniform_real (5, 50) (\<lambda>n. 1/2))
   \<and> fst (uniform_real (5, 50) (\<lambda>n. 1/2)) \<le> 50"
proof -
  let ?ec = "new_EnemyCreator 0 (\<lambda>n. 1/2) 3 5 50 (1/2) 4"
  have f: "creator_next_creation_time ?ec = 0" "creator_timedelay ?ec = 3"
    "radius_dist ?ec = (5, 50)" "rng ?ec = (\<lambda>n. 1/2)"
    by (simp_all add: new_EnemyCreator_def)
  have a: "CreateEnemy no_assets (Vec3 1 2 3) 0 0 ?ec = (None, ?ec)"
    using CreateEnemy_ring[of 0 ?ec no_assets "Vec3 1 2 3" 0] by (simp add: f)
  have "creator_next_creation_time ?ec < 4" by (simp add: f)
  then obtain e ec' where e: "CreateEnemy no_assets (Vec3 1 2 3) 4 4 ?ec = (Some e, ec')"
    and y: "vy (position e) = vy (Vec3 1 2 3)"
    and n: "creator_next_creation_time ec' = 4 + creator_timedelay ?ec"
    and w: "\<forall>t s p. t - 4 < creator_timedelay ?ec \<longrightarrow>
              CreateEnemy no_assets p t s ec' = (None, ec')"
    using CreateEnemy_ring[of 4 ?ec no_assets "Vec3 1 2 3" 4] by blast
  have l: "CreateEnemy no_assets (Vec3 1 2 3) 6 6 ec' = (None, ec')"
    using w by (simp add: f)
  have r: "5 \<le> fst (uniform_real (5, 50) (\<lambda>n. 1/2))
      \<and> fst (uniform_real (5, 50) (\<lambda>n. 1/2)) \<le> 50"
    using CreateEnemy_ring[of 4 ?ec no_assets "Vec3 1 2 3" 4] by (simp add: f)
  show ?thesis using a e y n l r by (auto simp add: f)
qed

section \<open>An idle tick\<close>

lemma tick_empty:
  assumes "objects w = []" and "\<not> left_pressed (player_input inp)"
    and "enemy_time_at_test inp \<le> creator_next_creation_time (enemy_creator w)"
  shows "tick ext inp w =
     Some (\<lparr>objects = [], player = mouse_look (player_input inp) (player w),
            prev_time = current_time inp, enemy_creator = enemy_creator w\<rparr>, [])"
proof -
  have c: "collision_pass [] = ([], [])"
    by (simp add: collision_pass_def prune_eq)
  have s: "CreateSnowBall ext (player_input inp) (player w)
      = Some (None, mouse_look (player_input inp) (player w))"
    using assms(2) by (intro CreateSnowBall_idle) simp
  show ?thesis
    using assms(1,3)
    by (simp add: tick_def Let_def move_objects_def c s CreateEnemy_waits)
qed

text \<open>
  C8. A tick on an empty collection, with the left button up and the clock of the
  spawner not after its next creation time, returns, leaves the collection empty and
  deletes nothing. The camera angles, the time of the previous tick and nothing else
  change.
\<close>

theorem tick_empty_idle:
  assumes "objects w = []" and "\<not> left_pressed (player_input inp)"
    and "enemy_time_at_test inp \<le> creator_next_creation_time (enemy_creator w)"
  shows "tick ext inp w =
     Some (\<lparr>objects = [], player = mouse_look (player_input inp) (player w),
            prev_time = current_time inp, enemy_creator = enemy_creator w\<rparr>, [])"
  using assms by (rule tick_empty)

text \<open>
  A world created at time 0 whose spawner waits until time 3, ticked at time 1 with the
  cursor in the window centre.
\<close>

theorem tick_empty_idle_witness:
  "tick no_assets
     \<lparr>current_time = 1,
      player_input = \<lparr>xpos = 512, ypos = 384, left_pressed = False, time_at_test = 1,
                       time_at_set = 1\<rparr>,
      enemy_time_at_test = 1, enemy_time_at_set = 1\<rparr>
     \<lparr>objects = [], player = new_Player 0, prev_time = 0,
      enemy_creator = new_EnemyCreator 3 (\<lambda>n. 1/2) 3 5 50 (1/2) 4\<rparr>
   = Some (\<lparr>objects = [], player = new_Player 0, prev_time = 1,
            enemy_creator = new_EnemyCreator 3 (\<lambda>n. 1/2) 3 5 50 (1/2) 4\<rparr>, [])"
proof -
  let ?inp = "\<lparr>current_time = 1,
      player_input = \<lparr>xpos = 512, ypos = 384, left_pressed = False, time_at_test = 1,
                       time_at_set = 1\<rparr>,
      enemy_time_at_test = 1, enemy_time_at_set = 1\<rparr>"
  let ?w = "\<lparr>objects = [], player = new_Player 0, prev_time = 0,
      enemy_creator = new_EnemyCreator 3 (\<lambda>n. 1/2) 3 5 50 (1/2) 4\<rparr>"
  have h: "objects ?w = []" "\<not> left_pressed (player_input ?inp)"
    "enemy_time_at_test ?inp \<le> creator_next_creation_time (enemy_creator ?w)"
    by (simp_all add: new_EnemyCreator_def)
  show ?thesis
    using tick_empty_idle[OF h, of no_assets] by (simp add: mouse_look_centre)
qed

section \<open>The camera basis\<close>

text \<open>
  Bounds on the sine of 0.7854 from its Taylor polynomial of degree 9, and from them on
  the cosine of 1.5708, half the constant \<open>Camera::PI\<close>.
\<close>

lemma sum_lessThan_10:
  fixes g :: "nat \<Rightarrow> real"
  shows "(\<Sum>m<10. g m) = g 0 + g 1 + g 2 + g 3 + g 4 + g 5 + g 6 + g 7 + g 8 + g 9"
  by (simp add: lessThan_nat_numeral lessThan_Suc)

lemma sin_coeff_values:
  "sin_coeff 0 = 0" "sin_coeff 1 = 1" "sin_coeff 2 = 0" "sin_coeff 3 = - 1 / 6"
  "sin_coeff 4 = 0" "sin_coeff 5 = 1 / 120" "sin_coeff 6 = 0" "sin_coeff 7 = - 1 / 5040"
  "sin_coeff 8 = 0" "sin_coeff 9 = 1 / 362880"
  by (simp_all add: sin_coeff_def fact_numeral)

lemma sin_coeff_sum_10:
  "(\<Sum>m<10. sin_coeff m * (x::real) ^ m)
     = x - x^3 / 6 + x^5 / 120 - x^7 / 5040 + x^9 / 362880"
  unfolding sum_lessThan_10 sin_coeff_values by simp

lemma sin_07854_bounds:
  "707107/1000000 < sin (3927/5000 :: real) \<and> sin (3927/5000 :: real) < 707109/1000000"
proof -
  let ?x = "3927/5000 :: real"
  let ?S = "?x - ?x^3 / 6 + ?x^5 / 120 - ?x^7 / 5040 + ?x^9 / 362880"
  have "\<bar>sin ?x - (\<Sum>m<10. sin_coeff m * ?x ^ m)\<bar> \<le> inverse (fact 10) * \<bar>?x\<bar> ^ 10"
    by (rule Maclaurin_sin_bound)
  then have b: "\<bar>sin ?x - ?S\<bar> \<le> inverse (fact 10) * \<bar>?x\<bar> ^ 10"
    by (simp only: sin_coeff_sum_10)
  have e: "inverse (fact 10) * \<bar>?x\<bar> ^ 10 < (1/10000000 :: real)"
    by (simp add: fact_numeral power_divide)
  have lo: "707107/1000000 + 1/10000000 < ?S"
    by (simp add: power_divide)
  have hi: "?S < 707109/1000000 - 1/10000000"
    by (simp add: power_divide)
  show ?thesis using b e lo hi by linarith
qed

lemma cos_half_Camera_PI:
  "cos (Camera_PI / 2) < 0 \<and> - (1/100000) < cos (Camera_PI / 2)"
proof -
  let ?s = "sin (3927/5000 :: real)"
  have q: "Camera_PI / 2 = 2 * (3927/5000)" by (simp add: Camera_PI_def)
  have c: "cos (Camera_PI / 2) = 1 - 2 * ?s\<^sup>2"
    unfolding q by (rule cos_double_sin)
  have lo: "(707107/1000000)\<^sup>2 < ?s\<^sup>2"
    using sin_07854_bounds by (intro power_strict_mono) simp_all
  have "0 < ?s" using sin_07854_bounds by linarith
  then have hi: "?s\<^sup>2 < (707109/1000000)\<^sup>2"
    using sin_07854_bounds by (intro power_strict_mono) simp_all
  show ?thesis unfolding c using lo hi by (simp add: power2_eq_square)
qed

lemma camera_dot:
  "glm_dot (CameraDirection c) (CameraRight c) = cos (vertical_angle c) * cos (Camera_PI / 2)"
proof -
  let ?h = "horizontal_angle c" and ?q = "Camera_PI / 2"
  have "cos (?h - (?h - ?q)) = cos ?h * cos (?h - ?q) + sin ?h * sin (?h - ?q)"
    by (rule cos_diff)
  then have "cos ?q = cos ?h * cos (?h - ?q) + sin ?h * sin (?h - ?q)" by simp
  then show ?thesis
    by (simp add: glm_dot_def CameraDirection_def CameraRight_def algebra_simps)
qed

text \<open>
  C7, as amended. The dot product of the view direction and the right vector is the
  cosine of the vertical angle times the cosine of \<open>Camera::PI / 2\<close>. With
  \<open>Camera::PI = 3.1416\<close> that second cosine is negative and above \<open>-10\<^sup>-\<^sup>5\<close>: the dot
  product is below \<open>10\<^sup>-\<^sup>5\<close> in absolute value, and it is zero exactly when the cosine of
  the vertical angle is.
\<close>

theorem camera_nearly_orthogonal:
  "glm_dot (CameraDirection c) (CameraRight c) = cos (vertical_angle c) * cos (Camera_PI / 2)
   \<and> \<bar>glm_dot (CameraDirection c) (CameraRight c)\<bar> < 1/100000
   \<and> (glm_dot (CameraDirection c) (CameraRight c) = 0 \<longleftrightarrow> cos (vertical_angle c) = 0)"
proof -
  let ?k = "cos (Camera_PI / 2)"
  have k: "?k < 0" "- (1/100000) < ?k" using cos_half_Camera_PI by simp_all
  have "\<bar>cos (vertical_angle c) * ?k\<bar> = \<bar>cos (vertical_angle c)\<bar> * \<bar>?k\<bar>"
    by (rule abs_mult)
  also have "\<dots> \<le> 1 * \<bar>?k\<bar>"
    by (intro mult_right_mono) simp_all
  also have "\<dots> < 1/100000" using k by simp
  finally have "\<bar>cos (vertical_angle c) * ?k\<bar> < 1/100000" .
  then show ?thesis using k(1) by (simp add: camera_dot)
qed

text \<open>
  C7 as stated fails for the camera as it is constructed, both angles 0: the direction is
  \<open>(0, 0, 1)\<close>, the right vector is \<open>(sin (-1.5708), 0, cos (-1.5708))\<close>, and their dot
  product is \<open>cos 1.5708\<close>, which is not zero.
\<close>

theorem camera_orthogonal_counterexample:
  "glm_dot (CameraDirection \<lparr>horizontal_angle = 0, vertical_angle = 0, fov = 45\<rparr>)
           (CameraRight \<lparr>horizontal_angle = 0, vertical_angle = 0, fov = 45\<rparr>) \<noteq> 0"
  using cos_half_Camera_PI by (simp add: camera_dot)

end
